theory Spec2Isabelle
  imports Main
begin


section \<open>Python strings\<close>

text \<open>
  A Python \<open>str\<close> is modelled as a \<^typ>\<open>string\<close> wherever every character the code
  looks at (the illegal and the safe file-name characters, the white space around a title,
  the literal parts of the URL pattern) is ASCII; a character outside ASCII is then any
  \<^typ>\<open>char\<close> that is none of them. The time components, which \<open>int\<close> reads with the
  Unicode tables, are lists of code points (see the time utilities).
\<close>

definition replace_char :: "char \<Rightarrow> char \<Rightarrow> string \<Rightarrow> string" where
  \<comment> \<open>\<open>s.replace(old, new)\<close> for one-character \<open>old\<close> and \<open>new\<close>\<close>
  "replace_char old new s = map (\<lambda>c. if c = old then new else c) s"

definition strip_chars :: "string \<Rightarrow> string \<Rightarrow> string" where
  \<comment> \<open>\<open>s.strip(chars)\<close>: drops leading and trailing characters that occur in \<open>chars\<close>\<close>
  "strip_chars chars s =
     rev (dropWhile (\<lambda>c. c \<in> set chars) (rev (dropWhile (\<lambda>c. c \<in> set chars) s)))"

definition py_whitespace :: string where
  \<comment> \<open>the ASCII characters for which \<open>str.isspace\<close> holds: tab, LF, VT, FF, CR,
      FS, GS, RS, US and the space\<close>
  "py_whitespace =
     [CHR 0x09, CHR 0x0A, CHR 0x0B, CHR 0x0C, CHR 0x0D,
      CHR 0x1C, CHR 0x1D, CHR 0x1E, CHR 0x1F, CHR 0x20]"

definition strip :: "string \<Rightarrow> string" where
  \<comment> \<open>\<open>s.strip()\<close>\<close>
  "strip s = strip_chars py_whitespace s"

section \<open>Filename utilities\<close>

definition format_time_for_filename :: "string \<Rightarrow> string" where
  "format_time_for_filename time_str = replace_char (CHR '':'') (CHR ''-'') time_str"

definition illegal_chars :: string where
  "illegal_chars = [CHR ''<'', CHR ''>'', CHR '':'', CHR 0x22, CHR ''/'', CHR 0x5C,
                    CHR ''|'', CHR ''?'', CHR ''*'']"

definition ascii_letters :: string where
  "ascii_letters = ''abcdefghijklmnopqrstuvwxyzABCDEFGHIJKLMNOPQRSTUVWXYZ''"

definition digits :: string where
  "digits = ''0123456789''"

definition safe_chars :: string where
  "safe_chars = ascii_letters @ digits @ '' -_''"

definition allowed_char :: "char \<Rightarrow> bool" where
  \<comment> \<open>a letter, a digit, the space, the hyphen or the underscore, by character code\<close>
  "allowed_char c =
     (let n = (of_char c :: nat)
      in (97 \<le> n \<and> n \<le> 122) \<or> (65 \<le> n \<and> n \<le> 90) \<or> (48 \<le> n \<and> n \<le> 57) \<or>
         c = CHR '' '' \<or> c = CHR ''-'' \<or> c = CHR ''_'')"

definition placeholder :: string where
  "placeholder = ''youtube_video''"

definition stripped_title :: "string \<Rightarrow> string" where
  \<comment> \<open>the value of \<open>safe_title\<close> after the call of \<open>strip\<close>, before the length limit\<close>
  "stripped_title title =
     (let title = fold (\<lambda>char t. replace_char char (CHR ''_'') t) illegal_chars title;
          safe_title = filter (\<lambda>c. c \<in> set safe_chars) title
      in strip_chars '' _'' safe_title)"

definition sanitize_filename :: "string \<Rightarrow> string" where
  "sanitize_filename title =
     (let safe_title = stripped_title title;
          safe_title = (if length safe_title > 100 then take 100 safe_title else safe_title)
      in if safe_title = [] then placeholder else safe_title)"

section \<open>Time utilities\<close>

text \<open>
  The three components come from text entries and may hold any Unicode text, so here a
  text is the list of its code points. \<open>int(s)\<close> consults two tables of the interpreter's
  Unicode database and one interpreter setting; they are parameters of the model:
  \<^item> \<open>space_table u c\<close>: the code point \<open>c\<close> is white space (asked for \<open>c \<ge> 127\<close> only);
  \<^item> \<open>decimal_table u c\<close>: the value, 0 to 9, of the decimal digit \<open>c\<close> (asked for
    \<open>c \<ge> 127\<close> only);
  \<^item> \<open>max_str_digits u\<close>: the limit on the number of digits of a literal, 0 for none
    (the limit is looked at for literals of more than 640 digits only).
  \<open>int(s)\<close> first maps every code point from 127 on to a space if it is white space, to
  its ASCII digit if it is a decimal digit and to an invalid character otherwise, and
  leaves the code points below 127 alone. It then skips the ASCII white space (tab, line
  feed, vertical tab, form feed, carriage return, space), reads one optional sign,
  refuses a leading underscore, scans the run of digits and underscores (refusing two
  underscores in a row and an underscore at the end of the run), applies the limit on the
  number of digits, skips the ASCII white space again and refuses anything left.
  \<open>None\<close> stands for the \<open>ValueError\<close> raised on a refusal.
\<close>

type_synonym ustring = "nat list"

record unicode =
  space_table :: "nat \<Rightarrow> bool"
  decimal_table :: "nat \<Rightarrow> nat option"
  max_str_digits :: nat

definition is_ws :: "unicode \<Rightarrow> nat \<Rightarrow> bool" where
  \<comment> \<open>the code points that are skipped as white space\<close>
  "is_ws u c = (c \<in> {9, 10, 11, 12, 13, 32} \<or> (127 \<le> c \<and> space_table u c))"

definition digit_of :: "unicode \<Rightarrow> nat \<Rightarrow> nat option" where
  \<comment> \<open>the value of a code point read as a digit: an ASCII digit, or a decimal digit of
      the table that is not white space\<close>
  "digit_of u c =
     (if 48 \<le> c \<and> c \<le> 57 then Some (c - 48)
      else if 127 \<le> c \<and> \<not> space_table u c then decimal_table u c
      else None)"

fun scan_digits :: "unicode \<Rightarrow> bool \<Rightarrow> nat list \<Rightarrow> ustring \<Rightarrow> (nat list \<times> ustring) option" where
  \<comment> \<open>the scan of the run of digits and underscores: \<open>prev\<close> tells that the character
      before was an underscore, \<open>ds\<close> are the digits read so far; the result is the digits
      of the run and the text after it\<close>
  "scan_digits u prev ds [] = (if prev then None else Some (ds, []))"
| "scan_digits u prev ds (c # cs) =
     (if c = 95 then (if prev then None else scan_digits u True ds cs)
      else (case digit_of u c of
              Some d \<Rightarrow> scan_digits u False (ds @ [d]) cs
            | None \<Rightarrow> if prev then None else Some (ds, c # cs)))"

definition decimal_value :: "nat list \<Rightarrow> nat" where
  "decimal_value ds = foldl (\<lambda>a d. 10 * a + d) 0 ds"

definition py_int :: "unicode \<Rightarrow> ustring \<Rightarrow> int option" where
  "py_int u s =
     (let s1 = dropWhile (is_ws u) s;
          negative = (s1 \<noteq> [] \<and> hd s1 = 45);
          s2 = (if s1 \<noteq> [] \<and> (hd s1 = 43 \<or> hd s1 = 45) then tl s1 else s1)
      in if s2 \<noteq> [] \<and> hd s2 = 95 then None
         else (case scan_digits u False [] s2 of
                 None \<Rightarrow> None
               | Some (ds, rest) \<Rightarrow>
                   if ds = [] then None
                   else if 640 < length ds \<and> 0 < max_str_digits u \<and>
                           max_str_digits u < length ds then None
                   else if dropWhile (is_ws u) rest \<noteq> [] then None
                   else Some (if negative then - int (decimal_value ds)
                              else int (decimal_value ds))))"

definition int_or_zero :: "unicode \<Rightarrow> ustring \<Rightarrow> int option" where
  \<comment> \<open>\<open>int(h) if h else 0\<close>\<close>
  "int_or_zero u h = (if h \<noteq> [] then py_int u h else Some 0)"

definition is_valid_time :: "unicode \<Rightarrow> ustring \<Rightarrow> ustring \<Rightarrow> ustring \<Rightarrow> bool" where
  \<comment> \<open>a \<open>ValueError\<close> of any of the three conversions is caught and gives \<open>False\<close>\<close>
  "is_valid_time u h m s =
     (case int_or_zero u h of
        None \<Rightarrow> False
      | Some hours \<Rightarrow>
     (case int_or_zero u m of
        None \<Rightarrow> False
      | Some minutes \<Rightarrow>
     (case int_or_zero u s of
        None \<Rightarrow> False
      | Some seconds \<Rightarrow>
          0 \<le> hours \<and> hours \<le> 23 \<and> 0 \<le> minutes \<and> minutes \<le> 59 \<and>
          0 \<le> seconds \<and> seconds \<le> 59)))"

fun decimal :: "nat \<Rightarrow> string" where
  "decimal n = (if n < 10 then [digits ! n] else decimal (n div 10) @ [digits ! (n mod 10)])"

definition fmt_02d :: "int \<Rightarrow> string" where
  \<comment> \<open>the format specification \<open>02d\<close>: zero-padded to width 2, the sign counted in the width\<close>
  "fmt_02d n =
     (if n < 0 then CHR ''-'' # decimal (nat (- n))
      else if n < 10 then CHR ''0'' # decimal (nat n)
      else decimal (nat n))"

definition format_time :: "unicode \<Rightarrow> ustring \<Rightarrow> ustring \<Rightarrow> ustring \<Rightarrow> string option" where
  \<comment> \<open>\<open>None\<close>: a conversion raised \<open>ValueError\<close>, which this function does not catch; the
      result holds ASCII digits and colons only\<close>
  "format_time u h m s =
     (case int_or_zero u h of
        None \<Rightarrow> None
      | Some hours \<Rightarrow>
     (case int_or_zero u m of
        None \<Rightarrow> None
      | Some minutes \<Rightarrow>
     (case int_or_zero u s of
        None \<Rightarrow> None
      | Some seconds \<Rightarrow>
          Some (fmt_02d hours @ '':'' @ fmt_02d minutes @ '':'' @ fmt_02d seconds))))"

subsection \<open>The components as the specification words them\<close>

text \<open>
  Specification 4.3 and 8: a component parses as an integer, and an absent component
  counts as 0. A text parses as the integer \<open>v\<close> when it is made of white space, an
  optional sign, groups of digits with single underscores between digits, and white space,
  the digits being no more than the interpreter's limit and \<open>v\<close> being the signed decimal
  value of the digits. \<open>digit_groups u body ds\<close>: \<open>body\<close> is such a run of digits, \<open>ds\<close> their
  values in order.
\<close>

inductive digit_groups :: "unicode \<Rightarrow> ustring \<Rightarrow> nat list \<Rightarrow> bool" for u where
  last: "digit_of u c = Some d \<Longrightarrow> digit_groups u [c] [d]"
| digit: "digit_of u c = Some d \<Longrightarrow> digit_groups u xs ds \<Longrightarrow>
          digit_groups u (c # xs) (d # ds)"
| underscore: "digit_of u c = Some d \<Longrightarrow> digit_groups u xs ds \<Longrightarrow>
          digit_groups u (c # 95 # xs) (d # ds)"

code_pred digit_groups .

definition integer_text :: "unicode \<Rightarrow> ustring \<Rightarrow> int \<Rightarrow> bool" where
  "integer_text u s v =
     (\<exists>lead sign body ds trail.
        s = lead @ sign @ body @ trail \<and>
        list_all (is_ws u) lead \<and> list_all (is_ws u) trail \<and>
        digit_groups u body ds \<and>
        (length ds \<le> 640 \<or> max_str_digits u = 0 \<or> length ds \<le> max_str_digits u) \<and>
        (sign = [] \<and> v = int (decimal_value ds) \<or>
         sign = [43] \<and> v = int (decimal_value ds) \<or>
         sign = [45] \<and> v = - int (decimal_value ds)))"

definition component :: "unicode \<Rightarrow> ustring \<Rightarrow> int \<Rightarrow> bool" where
  \<comment> \<open>the component \<open>c\<close> stands for the value \<open>v\<close>: it is absent and \<open>v\<close> is 0, or it
      parses as the integer \<open>v\<close>\<close>
  "component u c v = (c = [] \<and> v = 0 \<or> integer_text u c v)"

definition two_digits :: "int \<Rightarrow> string" where
  \<comment> \<open>the zero-padded rendering "HH" of a value in 0..99, as the specification words it\<close>
  "two_digits n = [digits ! nat (n div 10), digits ! nat (n mod 10)]"

definition excerpt_tables :: unicode where
  \<comment> \<open>the white space from 127 on, and of the decimal digits the Arabic-Indic
      (U+0660 to U+0669) and the fullwidth ones (U+FF10 to U+FF19); the limit of 4300 digits\<close>
  "excerpt_tables =
     \<lparr>space_table = (\<lambda>c. c \<in> {0x85, 0xA0, 0x1680, 0x2028, 0x2029, 0x202F, 0x205F, 0x3000} \<or>
                          (0x2000 \<le> c \<and> c \<le> 0x200A)),
      decimal_table = (\<lambda>c. if 0x660 \<le> c \<and> c \<le> 0x669 then Some (c - 0x660)
                            else if 0xFF10 \<le> c \<and> c \<le> 0xFF19 then Some (c - 0xFF10)
                            else None),
      max_str_digits = 4300\<rparr>"

section \<open>URL check\<close>

text \<open>
  The pattern \<^verbatim>\<open>^(https?://)?(www\.)?(youtube\.com|youtu\.be)/.+$\<close> is applied with
  \<open>re.match\<close>. A matcher maps a text to the remainders it can leave, in the order a
  backtracking engine tries them; the pattern matches when some remainder is left at the
  end. Without flags, \<open>.\<close> matches any character but the line feed, and \<open>$\<close> holds at
  the end of the text and before a line feed that ends the text.
\<close>

type_synonym matcher = "string \<Rightarrow> string list"

definition lit :: "string \<Rightarrow> matcher" where
  "lit p s = (if take (length p) s = p then [drop (length p) s] else [])"

definition opt :: "matcher \<Rightarrow> matcher" where
  "opt m s = m s @ [s]"

definition alt :: "matcher \<Rightarrow> matcher \<Rightarrow> matcher" where
  "alt m1 m2 s = m1 s @ m2 s"

definition seq :: "matcher \<Rightarrow> matcher \<Rightarrow> matcher" where
  "seq m1 m2 s = concat (map m2 (m1 s))"

definition line_feed :: char where
  "line_feed = CHR 0x0A"

definition dot_plus :: matcher where
  "dot_plus s =
     (let k = length (takeWhile (\<lambda>c. c \<noteq> line_feed) s)
      in map (\<lambda>n. drop n s) (rev [1..<Suc k]))"

definition dollar :: matcher where
  "dollar s = (if s = [] \<or> s = [line_feed] then [s] else [])"

definition url_pattern :: matcher where
  "url_pattern =
     seq (opt (seq (lit ''http'') (seq (opt (lit ''s'')) (lit ''://''))))
    (seq (opt (lit ''www.''))
    (seq (alt (lit ''youtube.com'') (lit ''youtu.be''))
    (seq (lit ''/'')
    (seq dot_plus dollar))))"

definition is_valid_url :: "string \<Rightarrow> bool" where
  "is_valid_url url = (url_pattern url \<noteq> [])"

section \<open>The environment of a run\<close>

text \<open>
  \<open>download_and_clip\<close> talks to the world through four channels: the status callback, the
  cancellation callback, the external processes it starts, and the file system. The model
  threads a \<open>world\<close> through the code and reads the answers of the outside from an \<open>env\<close>:
  \<^item> \<open>cancel_flag e k\<close> is what the \<open>k\<close>-th call of \<open>cancel_callback()\<close> returns (the flag is
    set by another thread, so successive calls may differ);
  \<^item> \<open>external e k cmd fs\<close> is what becomes of the \<open>k\<close>-th external command of the run,
    \<open>cmd\<close>, started when the files \<open>fs\<close> exist: the start fails, or waiting for the
    process fails, or it exits with a return code, its two output texts and the files
    that exist afterwards.
  Exceptions raised by \<open>subprocess\<close> are instances of \<open>Exception\<close> and carry their text.
  \<open>Path.exists\<close> is membership in \<open>files\<close>; \<open>Path.unlink\<close> removes an existing file and
  raises \<open>FileNotFoundError\<close> on a missing one. Creating the download directory succeeds.
\<close>

datatype exn = Exception string

fun str :: "exn \<Rightarrow> string" where
  "str (Exception msg) = msg"

datatype proc_outcome =
    Popen_raises exn
  | Communicate_raises exn "string set"
  | Exited int string string "string set"

record env =
  cancel_flag :: "nat \<Rightarrow> bool"
  external :: "nat \<Rightarrow> string \<Rightarrow> string set \<Rightarrow> proc_outcome"
  download_dir :: string
  cookies :: "string option"
  now :: string

record world =
  files :: "string set"
  statuses :: "string list"
  invoked :: "string list"
  polls :: nat
  terminated :: "nat list"

definition status_callback :: "string \<Rightarrow> world \<Rightarrow> world" where
  "status_callback msg w = w\<lparr>statuses := statuses w @ [msg]\<rparr>"

definition cancel_callback :: "env \<Rightarrow> world \<Rightarrow> bool \<times> world" where
  "cancel_callback e w = (cancel_flag e (polls w), w\<lparr>polls := Suc (polls w)\<rparr>)"

definition unlink :: "string \<Rightarrow> world \<Rightarrow> exn + world" where
  "unlink p w =
     (if p \<in> files w then Inr (w\<lparr>files := files w - {p}\<rparr>)
      else Inl (Exception (''[Errno 2] No such file or directory: '' @ p)))"

section \<open>Running a command\<close>

text \<open>
  A process is named by its number in the run. The callbacks this program passes to
  \<open>run_command\<close> (\<open>set_process\<close>) only store the process in a local variable of the caller;
  \<open>'l\<close> is the type of the caller's locals.
\<close>

definition run_command_body ::
  "env \<Rightarrow> string \<Rightarrow> (nat \<Rightarrow> 'l \<Rightarrow> 'l) option \<Rightarrow> 'l \<times> world \<Rightarrow> (exn + int \<times> string) \<times> 'l \<times> world"
where
  \<comment> \<open>the \<open>try\<close> block: \<open>Popen\<close>, the callback, \<open>communicate\<close>, the returned pair\<close>
  "run_command_body e cmd process_callback lw =
     (let (l, w) = lw;
          process = length (invoked w);
          w1 = w\<lparr>invoked := invoked w @ [cmd]\<rparr>;
          l1 = (case process_callback of None \<Rightarrow> l | Some cb \<Rightarrow> cb process l)
      in case external e process cmd (files w) of
           Popen_raises x \<Rightarrow> (Inl x, l, w1)
         | Communicate_raises x fs \<Rightarrow> (Inl x, l1, w1\<lparr>files := fs\<rparr>)
         | Exited returncode out err fs \<Rightarrow> (Inr (returncode, out @ err), l1, w1\<lparr>files := fs\<rparr>))"

definition run_command ::
  "env \<Rightarrow> string \<Rightarrow> (nat \<Rightarrow> 'l \<Rightarrow> 'l) option \<Rightarrow> 'l \<times> world \<Rightarrow> (exn + int \<times> string) \<times> 'l \<times> world"
where
  \<comment> \<open>\<open>except Exception as e: return 1, str(e)\<close>\<close>
  "run_command e cmd process_callback lw =
     (case run_command_body e cmd process_callback lw of
        (Inl x, l, w) \<Rightarrow> (Inr (1, str x), l, w)
      | (Inr r, l, w) \<Rightarrow> (Inr r, l, w))"

section \<open>The commands\<close>

definition quoted :: "string \<Rightarrow> string" where
  "quoted s = [CHR 0x22] @ s @ [CHR 0x22]"

definition title_cmd :: "string \<Rightarrow> string" where
  "title_cmd url = ''yt-dlp --get-title '' @ quoted url"

definition android_agent :: string where
  "android_agent = ''Mozilla/5.0 (Linux; Android 13; SM-G991B) AppleWebKit/537.36 (KHTML, like Gecko) Chrome/120.0.0.0 Mobile Safari/537.36''"

definition web_agent :: string where
  "web_agent = ''Mozilla/5.0 (Windows NT 10.0; Win64; x64) AppleWebKit/537.36 (KHTML, like Gecko) Chrome/120.0.0.0 Safari/537.36''"

definition ios_agent :: string where
  "ios_agent = ''Mozilla/5.0 (iPhone; CPU iPhone OS 16_0 like Mac OS X) AppleWebKit/605.1.15 (KHTML, like Gecko) Version/16.0 Mobile/15E148 Safari/604.1''"

definition player_clients :: "(string \<times> string \<times> string) list" where
  "player_clients =
     [(''android'', android_agent, ''https://m.youtube.com/''),
      (''web'', web_agent, ''https://www.youtube.com/''),
      (''ios'', ios_agent, ''https://m.youtube.com/'')]"

definition ytdlp_cmd :: "string \<Rightarrow> string \<Rightarrow> string \<Rightarrow> string \<Rightarrow> string \<Rightarrow> string \<Rightarrow> string" where
  "ytdlp_cmd client_name user_agent referer cookies_arg full_output url =
     ''yt-dlp -f '' @ quoted ''bestvideo[ext=mp4]+bestaudio[ext=m4a]'' @ '' '' @
     ''--merge-output-format mp4 '' @
     ''--extractor-args '' @ quoted (''youtube:player_client='' @ client_name) @ '' '' @
     ''--retries 10 '' @
     ''--fragment-retries 10 '' @
     ''--concurrent-fragments 5 '' @
     ''--user-agent '' @ quoted user_agent @ '' '' @
     ''--referer '' @ quoted referer @ '' '' @
     ''--add-header '' @ quoted ''Accept-Language: en-US,en;q=0.9'' @ '' '' @
     ''--add-header '' @ quoted ''Accept: text/html,application/xhtml+xml,application/xml;q=0.9,image/webp,*/*;q=0.8'' @ '' '' @
     ''--add-header '' @ quoted ''Accept-Encoding: gzip, deflate, br'' @ '' '' @
     ''--add-header '' @ quoted ''DNT: 1'' @ '' '' @
     ''--add-header '' @ quoted ''Connection: keep-alive'' @ '' '' @
     ''--add-header '' @ quoted ''Upgrade-Insecure-Requests: 1'' @ '' '' @
     ''--add-header '' @ quoted ''Sec-Fetch-Dest: document'' @ '' '' @
     ''--add-header '' @ quoted ''Sec-Fetch-Mode: navigate'' @ '' '' @
     ''--add-header '' @ quoted ''Sec-Fetch-Site: none'' @ '' '' @
     ''--no-check-certificates '' @
     ''--prefer-insecure '' @
     ''--no-warnings '' @
     ''--no-playlist '' @
     cookies_arg @ '' '' @
     ''-o '' @ quoted full_output @ '' '' @
     quoted url"

definition generic_cmd :: "string \<Rightarrow> string \<Rightarrow> string \<Rightarrow> string" where
  "generic_cmd cookies_arg full_output url =
     ''yt-dlp --force-generic-extractor '' @
     ''-f '' @ quoted ''bestvideo[ext=mp4]+bestaudio[ext=m4a]'' @ '' '' @
     ''--merge-output-format mp4 '' @
     ''--retries 10 '' @
     ''--fragment-retries 10 '' @
     ''--concurrent-fragments 5 '' @
     ''--no-check-certificates '' @
     ''--prefer-insecure '' @
     ''--no-warnings '' @
     ''--no-playlist '' @
     cookies_arg @ '' '' @
     ''-o '' @ quoted full_output @ '' '' @
     quoted url"

definition ffmpeg_cmd :: "string \<Rightarrow> string \<Rightarrow> string \<Rightarrow> string \<Rightarrow> string" where
  "ffmpeg_cmd full_output start end' clipped_output =
     ''ffmpeg -y -i '' @ quoted full_output @ '' -ss '' @ start @ '' -to '' @ end' @ '' '' @
     ''-map 0:v:0 -map 0:a:0? '' @
     ''-c:v libx264 -preset veryslow -crf 18 '' @
     ''-c:a aac -b:a 256k '' @
     ''-vsync 2 -copyts -avoid_negative_ts make_zero -reset_timestamps 1 '' @
     ''-movflags +faststart '' @
     ''-shortest '' @ quoted clipped_output"

section \<open>The video title and the file names\<close>

definition get_video_title :: "env \<Rightarrow> string \<Rightarrow> world \<Rightarrow> string option \<times> world" where
  \<comment> \<open>\<open>subprocess.run\<close>; any exception is caught (and printed) and gives \<open>None\<close>\<close>
  "get_video_title e url w =
     (let cmd = title_cmd url;
          w1 = w\<lparr>invoked := invoked w @ [cmd]\<rparr>
      in case external e (length (invoked w)) cmd (files w) of
           Popen_raises x \<Rightarrow> (None, w1)
         | Communicate_raises x fs \<Rightarrow> (None, w1\<lparr>files := fs\<rparr>)
         | Exited returncode out err fs \<Rightarrow>
             (if returncode = 0 then Some (sanitize_filename (strip out)) else None,
              w1\<lparr>files := fs\<rparr>))"

definition full_name :: "string \<Rightarrow> string" where
  "full_name video_title = video_title @ ''_full.mp4''"

definition clip_name :: "string \<Rightarrow> string \<Rightarrow> string \<Rightarrow> string" where
  "clip_name video_title start end' =
     video_title @ ''_clip_'' @ format_time_for_filename start @ ''_to_'' @
     format_time_for_filename end' @ ''.mp4''"

definition in_dir :: "string \<Rightarrow> string \<Rightarrow> string" where
  \<comment> \<open>\<open>str((download_dir / name).resolve())\<close>, \<open>download_dir e\<close> being the resolved directory\<close>
  "in_dir dir name = dir @ ''/'' @ name"

definition prepare ::
  "env \<Rightarrow> string \<Rightarrow> string \<Rightarrow> string \<Rightarrow> world \<Rightarrow> (string \<times> string \<times> string \<times> string) \<times> world"
where
  \<comment> \<open>the code before the loop: the title, the two paths, the cookies argument\<close>
  "prepare e url start end' w =
     (let w1 = status_callback ''Starting download...'' w;
          (title, w2) = get_video_title e url w1;
          video_title = (case title of
                           None \<Rightarrow> ''yt_video_'' @ now e
                         | Some t \<Rightarrow> if t = [] then ''yt_video_'' @ now e else t);
          full_output = in_dir (download_dir e) (full_name video_title);
          clipped_output = in_dir (download_dir e) (clip_name video_title start end');
          w3 = status_callback (''Downloading: '' @ video_title) w2;
          cookies_arg = (case cookies e of
                           Some cookies_path \<Rightarrow> ''--cookies '' @ quoted cookies_path
                         | None \<Rightarrow> [])
      in ((video_title, full_output, clipped_output, cookies_arg), w3))"

section \<open>Retrieval and trim\<close>

definition check_mark :: string where
  \<comment> \<open>U+2705 in UTF-8\<close>
  "check_mark = [CHR 0xE2, CHR 0x9C, CHR 0x85]"

definition cross_mark :: string where
  \<comment> \<open>U+274C in UTF-8\<close>
  "cross_mark = [CHR 0xE2, CHR 0x9D, CHR 0x8C]"

definition set_process :: "nat \<Rightarrow> nat option \<Rightarrow> nat option" where
  "set_process p process = Some p"

definition terminate :: "nat option \<Rightarrow> world \<Rightarrow> world" where
  \<comment> \<open>\<open>if process: process.terminate() ...\<close>: recorded; it touches neither the files nor
      the control flow (the process has exited when \<open>communicate\<close> returned)\<close>
  "terminate process w =
     (case process of None \<Rightarrow> w | Some p \<Rightarrow> w\<lparr>terminated := terminated w @ [p]\<rparr>)"

definition cleanup_partial :: "string \<Rightarrow> world \<Rightarrow> world" where
  \<comment> \<open>\<open>if exists: try: unlink except: pass\<close>\<close>
  "cleanup_partial full_output w =
     (if full_output \<in> files w then
        (case unlink full_output w of Inl x \<Rightarrow> w | Inr w' \<Rightarrow> w')
      else w)"

datatype loop_exit = Returned | Broke | Exhausted

fun player_client_loop ::
  "env \<Rightarrow> string \<Rightarrow> string \<Rightarrow> string \<Rightarrow> (string \<times> string \<times> string) list \<Rightarrow>
   nat option \<times> world \<Rightarrow> (exn + loop_exit) \<times> nat option \<times> world"
where
  "player_client_loop e cookies_arg full_output url [] (process, w) =
     (Inr Exhausted, process, w)"
| "player_client_loop e cookies_arg full_output url
     ((client_name, user_agent, referer) # rest) (process, w) =
     (let (cancelled, w1) = cancel_callback e w in
      if cancelled then (Inr Returned, process, status_callback ''Download cancelled.'' w1)
      else
        let w2 = status_callback (''Trying '' @ client_name @ '' player client...'') w1;
            cmd = ytdlp_cmd client_name user_agent referer cookies_arg full_output url
        in case run_command e cmd (Some set_process) (None, w2) of
             (Inl x, process, w3) \<Rightarrow> (Inl x, process, w3)
           | (Inr (code, output), process, w3) \<Rightarrow>
               let (cancelled, w4) = cancel_callback e w3 in
               if cancelled then
                 (Inr Returned, process,
                  status_callback ''Download cancelled.'' (terminate process w4))
               else if code = 0 \<and> full_output \<in> files w4 then
                 (Inr Broke, process,
                  status_callback (check_mark @ '' Download successful using '' @ client_name @
                                   '' player client!'') w4)
               else
                 let w5 = status_callback (cross_mark @ '' '' @ client_name @
                                           '' client failed: '' @ output) w4;
                     w6 = cleanup_partial full_output w5
                 in player_client_loop e cookies_arg full_output url rest (process, w6))"

datatype retrieval = Ret_cancelled | Ret_failed | Ret_ok

definition generic_fallback ::
  "env \<Rightarrow> string \<Rightarrow> string \<Rightarrow> string \<Rightarrow> world \<Rightarrow> (exn + retrieval) \<times> nat option \<times> world"
where
  "generic_fallback e cookies_arg full_output url w =
     (let w1 = status_callback
                 ''All player clients failed. Trying generic extractor as fallback...'' w;
          cmd = generic_cmd cookies_arg full_output url
      in case run_command e cmd (Some set_process) (None, w1) of
           (Inl x, process, w2) \<Rightarrow> (Inl x, process, w2)
         | (Inr (code, output), process, w2) \<Rightarrow>
             let (cancelled, w3) = cancel_callback e w2 in
             if cancelled then
               (Inr Ret_cancelled, process,
                status_callback ''Download cancelled.'' (terminate process w3))
             else if code = 0 \<and> full_output \<in> files w3 then
               (Inr Ret_ok, process,
                status_callback (check_mark @ '' Download successful using generic extractor!'') w3)
             else
               let w4 = status_callback (cross_mark @ '' Generic extractor failed: '' @ output) w3;
                   w5 = cleanup_partial full_output w4
               in (Inr Ret_failed, process,
                   status_callback (cross_mark @
                     '' All extraction methods failed. Download cannot proceed.'') w5))"

definition retrieve ::
  "env \<Rightarrow> string \<Rightarrow> string \<Rightarrow> string \<Rightarrow> world \<Rightarrow> (exn + retrieval) \<times> nat option \<times> world"
where
  \<comment> \<open>the loop over the player clients and the block \<open>if not download_success\<close>\<close>
  "retrieve e cookies_arg full_output url w =
     (case player_client_loop e cookies_arg full_output url player_clients (None, w) of
        (Inl x, process, w1) \<Rightarrow> (Inl x, process, w1)
      | (Inr Returned, process, w1) \<Rightarrow> (Inr Ret_cancelled, process, w1)
      | (Inr Broke, process, w1) \<Rightarrow> (Inr Ret_ok, process, w1)
      | (Inr Exhausted, process, w1) \<Rightarrow> generic_fallback e cookies_arg full_output url w1)"

datatype outcome = Cancelled | Failed | Clip_saved | Raised exn

definition trim ::
  "env \<Rightarrow> string \<Rightarrow> string \<Rightarrow> string \<Rightarrow> string \<Rightarrow> nat option \<times> world \<Rightarrow> outcome \<times> world"
where
  "trim e full_output clipped_output start end' pw =
     (let (process, w) = pw;
          w1 = status_callback ''Trimming video with ffmpeg...'' w;
          cmd = ffmpeg_cmd full_output start end' clipped_output
      in case run_command e cmd (Some set_process) (process, w1) of
           (Inl x, process, w2) \<Rightarrow> (Raised x, w2)
         | (Inr (code, output), process, w2) \<Rightarrow>
             let (cancelled, w3) = cancel_callback e w2 in
             if cancelled then
               let w4 = status_callback ''Trimming cancelled.'' (terminate process w3) in
               if full_output \<in> files w4 then
                 (case unlink full_output w4 of
                    Inl x \<Rightarrow> (Raised x, w4)
                  | Inr w5 \<Rightarrow> (Cancelled, w5))
               else (Cancelled, w4)
             else if code = 0 \<and> clipped_output \<in> files w3 then
               let w4 = status_callback (''Clip saved as '' @ clipped_output @ ''!'') w3 in
               (case unlink full_output w4 of
                  Inl x \<Rightarrow> (Raised x, w4)
                | Inr w5 \<Rightarrow> (Clip_saved, w5))
             else
               let w4 = status_callback (''ffmpeg failed: '' @ output) w3 in
               if full_output \<in> files w4 then
                 (case unlink full_output w4 of
                    Inl x \<Rightarrow> (Raised x, w4)
                  | Inr w5 \<Rightarrow> (Failed, w5))
               else (Failed, w4))"

definition download_and_clip :: "env \<Rightarrow> string \<Rightarrow> string \<Rightarrow> string \<Rightarrow> world \<Rightarrow> outcome \<times> world" where
  \<comment> \<open>the function returns \<open>None\<close> on every path; the outcome names the \<open>return\<close> taken, by
      the last status it reported\<close>
  "download_and_clip e url start end' w =
     (let ((video_title, full_output, clipped_output, cookies_arg), w1) =
            prepare e url start end' w
      in case retrieve e cookies_arg full_output url w1 of
           (Inl x, process, w2) \<Rightarrow> (Raised x, w2)
         | (Inr Ret_cancelled, process, w2) \<Rightarrow> (Cancelled, w2)
         | (Inr Ret_failed, process, w2) \<Rightarrow> (Failed, w2)
         | (Inr Ret_ok, process, w2) \<Rightarrow>
             trim e full_output clipped_output start end' (process, w2))"

definition paths :: "env \<Rightarrow> string \<Rightarrow> string \<Rightarrow> string \<Rightarrow> world \<Rightarrow> string \<times> string \<times> string \<times> string" where
  \<comment> \<open>\<open>video_title\<close>, \<open>full_output\<close>, \<open>clipped_output\<close> and \<open>cookies_arg\<close> of a run\<close>
  "paths e url start end' w = fst (prepare e url start end' w)"

definition retrieval ::
  "env \<Rightarrow> string \<Rightarrow> string \<Rightarrow> string \<Rightarrow> world \<Rightarrow> (exn + retrieval) \<times> nat option \<times> world"
where
  \<comment> \<open>a run up to the end of retrieval (the line before \<open>Trimming video with ffmpeg...\<close>)\<close>
  "retrieval e url start end' w =
     (let ((video_title, full_output, clipped_output, cookies_arg), w1) =
            prepare e url start end' w
      in retrieve e cookies_arg full_output url w1)"

definition start_world :: "string set \<Rightarrow> world" where
  "start_world fs = \<lparr>files = fs, statuses = [], invoked = [], polls = 0, terminated = []\<rparr>"

definition files_after :: "env \<Rightarrow> string \<Rightarrow> world \<Rightarrow> string set" where
  \<comment> \<open>the files that exist once the command \<open>cmd\<close>, started in the world \<open>w\<close>, is over\<close>
  "files_after e cmd w =
     (case external e (length (invoked w)) cmd (files w) of
        Popen_raises x \<Rightarrow> files w
      | Communicate_raises x fs \<Rightarrow> fs
      | Exited returncode out err fs \<Rightarrow> fs)"

definition cmd_result :: "env \<Rightarrow> string \<Rightarrow> world \<Rightarrow> int \<times> string" where
  \<comment> \<open>the pair \<open>run_command\<close> returns for the command \<open>cmd\<close> started in the world \<open>w\<close>\<close>
  "cmd_result e cmd w =
     (case external e (length (invoked w)) cmd (files w) of
        Popen_raises x \<Rightarrow> (1, str x)
      | Communicate_raises x fs \<Rightarrow> (1, str x)
      | Exited returncode out err fs \<Rightarrow> (returncode, out @ err))"

definition process_after :: "env \<Rightarrow> string \<Rightarrow> nat option \<Rightarrow> world \<Rightarrow> nat option" where
  \<comment> \<open>the caller's variable \<open>process\<close> after \<open>run_command\<close> with \<open>set_process\<close>\<close>
  "process_after e cmd process w =
     (case external e (length (invoked w)) cmd (files w) of
        Popen_raises x \<Rightarrow> process
      | Communicate_raises x fs \<Rightarrow> Some (length (invoked w))
      | Exited returncode out err fs \<Rightarrow> Some (length (invoked w)))"

section \<open>The strategy runner as the specification words it\<close>

text \<open>
  Specification 4.1: the strategies are tried in their declared order; an attempt succeeds
  iff the process exits with status 0 and the expected output file exists afterwards; after
  a failed attempt the partial output is deleted before the next one; the first success
  ends the run; when every strategy has failed the result is a failure. The state is the
  set of files and the list of the commands started so far.
\<close>

fun spec_attempts ::
  "env \<Rightarrow> string \<Rightarrow> string list \<Rightarrow> string set \<times> string list \<Rightarrow> bool \<times> string set \<times> string list"
where
  "spec_attempts e out [] (fs, started) = (False, fs, started)"
| "spec_attempts e out (cmd # cmds) (fs, started) =
     (case external e (length started) cmd fs of
        Exited code so se fs' \<Rightarrow>
          if code = 0 \<and> out \<in> fs' then (True, fs', started @ [cmd])
          else spec_attempts e out cmds (fs' - {out}, started @ [cmd])
      | Communicate_raises x fs' \<Rightarrow> spec_attempts e out cmds (fs' - {out}, started @ [cmd])
      | Popen_raises x \<Rightarrow> spec_attempts e out cmds (fs - {out}, started @ [cmd]))"

definition named_commands :: "string \<Rightarrow> string \<Rightarrow> string \<Rightarrow> string list" where
  "named_commands cookies_arg full_output url =
     map (\<lambda>(client_name, user_agent, referer).
            ytdlp_cmd client_name user_agent referer cookies_arg full_output url) player_clients"

definition strategy_commands :: "string \<Rightarrow> string \<Rightarrow> string \<Rightarrow> string list" where
  \<comment> \<open>the named strategies in their declared order, then the generic fallback, once\<close>
  "strategy_commands cookies_arg full_output url =
     named_commands cookies_arg full_output url @ [generic_cmd cookies_arg full_output url]"

section \<open>Concrete runs\<close>

definition scripted :: "bool list \<Rightarrow> (string set \<Rightarrow> proc_outcome) list \<Rightarrow> env" where
  \<comment> \<open>an environment given by the answers of the cancellation callback (\<open>False\<close> once the
      list is used up) and by what the successive commands do to the files\<close>
  "scripted answers procs =
     \<lparr>cancel_flag = (\<lambda>k. k < length answers \<and> answers ! k),
      external = (\<lambda>k cmd fs. if k < length procs then (procs ! k) fs
                              else Popen_raises (Exception ''no such command'')),
      download_dir = ''/home/user/Downloads/YouTubeClips'',
      cookies = None,
      now = ''20240101_120000''\<rparr>"

definition title_ok :: "string set \<Rightarrow> proc_outcome" where
  \<comment> \<open>the title lookup prints the title \<^verbatim>\<open>My Video\<close> and a line feed\<close>
  "title_ok fs = Exited 0 (''My Video'' @ [CHR 0x0A]) [] fs"

definition my_full :: string where
  "my_full = ''/home/user/Downloads/YouTubeClips/My Video_full.mp4''"

definition my_clip :: string where
  "my_clip = ''/home/user/Downloads/YouTubeClips/My Video_clip_00-00-10_to_00-01-00.mp4''"

definition download_ok :: "string set \<Rightarrow> proc_outcome" where
  "download_ok fs = Exited 0 ''[download] 100%'' [] (insert my_full fs)"

definition download_partial :: "string set \<Rightarrow> proc_outcome" where
  \<comment> \<open>a download that fails and leaves a partial output file\<close>
  "download_partial fs = Exited 1 [] ''ERROR: unable to download'' (insert my_full fs)"

definition download_nothing :: "string set \<Rightarrow> proc_outcome" where
  "download_nothing fs = Exited 1 [] ''ERROR: unable to extract'' fs"

definition download_no_file :: "string set \<Rightarrow> proc_outcome" where
  \<comment> \<open>the downloader exits with status 0 but the expected file is not there\<close>
  "download_no_file fs = Exited 0 [] [] fs"

definition ffmpeg_ok :: "string set \<Rightarrow> proc_outcome" where
  "ffmpeg_ok fs = Exited 0 [] ''video:1kB audio:1kB'' (insert my_clip fs)"

definition my_url :: string where
  "my_url = ''https://www.youtube.com/watch?v=abc123''"

definition env_cancel_at_start :: env where
  \<comment> \<open>the flag is set while the title is looked up\<close>
  "env_cancel_at_start = scripted [True] [title_ok]"

definition env_cancel_after_download :: env where
  \<comment> \<open>the flag is set while the first download runs; the download completes\<close>
  "env_cancel_after_download = scripted [False, True] [title_ok, download_ok]"

definition env_cancel_in_trim :: env where
  \<comment> \<open>the flag is set while the transcoder runs; the transcoder completes\<close>
  "env_cancel_in_trim = scripted [False, False, True] [title_ok, download_ok, ffmpeg_ok]"

definition env_success :: env where
  "env_success = scripted [] [title_ok, download_ok, ffmpeg_ok]"

definition env_second_client :: env where
  \<comment> \<open>retrieval alone: the first client fails and leaves a partial file, the second succeeds\<close>
  "env_second_client = scripted [] [download_partial, download_ok]"

definition env_all_fail :: env where
  "env_all_fail =
     scripted [] [download_partial, download_no_file, download_nothing, download_partial]"

definition env_popen_fails :: env where
  "env_popen_fails =
     scripted [] [\<lambda>fs. Popen_raises (Exception ''[Errno 12] Cannot allocate memory'')]"

definition env_wait_fails :: env where
  "env_wait_fails =
     scripted [] [\<lambda>fs. Communicate_raises (Exception ''I/O operation on closed file'') fs]"

definition env_exit_3 :: env where
  "env_exit_3 = scripted [] [\<lambda>fs. Exited 3 ''out'' ''err'' fs]"

declare decimal.simps [simp del]

section \<open>Properties of the filename utilities\<close>

lemma safe_allowed: "c \<in> set safe_chars \<Longrightarrow> allowed_char c"
  by (auto simp: safe_chars_def ascii_letters_def digits_def allowed_char_def)


lemma set_strip_chars: "set (strip_chars cs s) \<subseteq> set s"
  unfolding strip_chars_def
  by (metis set_dropWhileD set_rev subsetI)

lemma length_strip_chars: "length (strip_chars cs s) \<le> length s"
  unfolding strip_chars_def
  by (metis length_dropWhile_le length_rev order_trans)

lemma set_stripped_title: "set (stripped_title t) \<subseteq> set safe_chars"
  unfolding stripped_title_def Let_def using set_strip_chars by fastforce

lemma placeholder_safe: "set placeholder \<subseteq> set safe_chars"
  by (simp add: placeholder_def safe_chars_def ascii_letters_def digits_def)

lemma set_sanitize: "set (sanitize_filename t) \<subseteq> set safe_chars"
  using set_stripped_title[of t] placeholder_safe
  by (auto simp: sanitize_filename_def Let_def dest: in_set_takeD)

lemma length_sanitize: "length (sanitize_filename t) \<le> 100"
  by (simp add: sanitize_filename_def Let_def placeholder_def)

lemma safe_not_illegal: "c \<in> set safe_chars \<Longrightarrow> c \<notin> set illegal_chars"
  by (auto simp: safe_chars_def ascii_letters_def digits_def illegal_chars_def)

lemma replace_char_absent: "old \<notin> set s \<Longrightarrow> replace_char old new s = s"
  unfolding replace_char_def by (induction s) auto

lemma fold_replace_absent:
  "set s \<inter> set cs = {} \<Longrightarrow> fold (\<lambda>char t. replace_char char new t) cs s = s"
  by (induction cs) (auto simp: replace_char_absent)

lemma strip_chars_ends:
  assumes "strip_chars cs s \<noteq> []"
  shows "hd (strip_chars cs s) \<notin> set cs" and "last (strip_chars cs s) \<notin> set cs"
proof -
  let ?P = "\<lambda>c. c \<in> set cs"
  let ?d = "dropWhile ?P s"
  let ?r = "dropWhile ?P (rev ?d)"
  from assms have r: "?r \<noteq> []" by (simp add: strip_chars_def)
  have d: "?d \<noteq> []"
  proof
    assume "?d = []"
    then have "?r = []" by (simp del: dropWhile_eq_Nil_conv)
    with r show False by contradiction
  qed
  have "\<not> ?P (hd ?r)" using r by (rule hd_dropWhile)
  then show "last (strip_chars cs s) \<notin> set cs"
    using r by (simp add: strip_chars_def last_rev)
  have "\<not> ?P (hd ?d)" using d by (rule hd_dropWhile)
  moreover have "last ?r = last (rev ?d)"
    using r by (metis dropWhile_eq_Nil_conv dropWhile_last)
  ultimately show "hd (strip_chars cs s) \<notin> set cs"
    using r d by (simp add: strip_chars_def hd_rev last_rev)
qed

lemma strip_chars_front:
  assumes "s \<noteq> []" "hd s \<notin> set cs"
  shows "strip_chars cs s = rev (dropWhile (\<lambda>c. c \<in> set cs) (rev s))"
    and "strip_chars cs s \<noteq> []" and "hd (strip_chars cs s) = hd s"
proof -
  let ?P = "\<lambda>c. c \<in> set cs"
  have d: "dropWhile ?P s = s" using assms by (cases s) auto
  then show e: "strip_chars cs s = rev (dropWhile ?P (rev s))" by (simp add: strip_chars_def)
  obtain a t where s: "s = a # t" using assms(1) by (cases s) auto
  with assms(2) have a: "\<not> ?P a" by simp
  have "dropWhile ?P (rev s) = dropWhile ?P (rev t) @ [a]"
    using a by (simp add: s dropWhile_append3)
  then have "strip_chars cs s = a # rev (dropWhile ?P (rev t))"
    unfolding e by simp
  then show "strip_chars cs s \<noteq> []" "hd (strip_chars cs s) = hd s"
    by (simp_all add: s)
qed

lemma strip_chars_fixed:
  assumes "s \<noteq> []" "hd s \<notin> set cs" "last s \<notin> set cs"
  shows "strip_chars cs s = s"
proof -
  have "hd (rev s) \<notin> set cs" using assms by (simp add: hd_rev)
  then have "dropWhile (\<lambda>c. c \<in> set cs) (rev s) = rev s"
    using assms(1) by (cases "rev s") auto
  then show ?thesis using strip_chars_front(1)[OF assms(1,2)] by simp
qed

lemma sanitize_nonempty: "sanitize_filename t \<noteq> []"
  by (auto simp: sanitize_filename_def Let_def placeholder_def)

lemma sanitize_hd: "hd (sanitize_filename t) \<notin> set '' _''"
proof (cases "stripped_title t = []")
  case True
  then show ?thesis by (simp add: sanitize_filename_def placeholder_def)
next
  case False
  then have "hd (stripped_title t) \<notin> set '' _''"
    unfolding stripped_title_def Let_def by (rule strip_chars_ends(1))
  with False show ?thesis by (auto simp: sanitize_filename_def Let_def)
qed

lemma stripped_title_safe:
  assumes "set s \<subseteq> set safe_chars"
  shows "stripped_title s = strip_chars '' _'' s"
proof -
  have "set s \<inter> set illegal_chars = {}" using assms safe_not_illegal by auto
  then have "fold (\<lambda>char t. replace_char char (CHR ''_'') t) illegal_chars s = s"
    by (rule fold_replace_absent)
  moreover have "filter (\<lambda>c. c \<in> set safe_chars) s = s" using assms by (auto intro: filter_True)
  ultimately show ?thesis by (simp add: stripped_title_def)
qed

lemma sanitize_twice: "sanitize_filename (sanitize_filename x) = strip_chars '' _'' (sanitize_filename x)"
proof -
  let ?y = "sanitize_filename x"
  have st: "stripped_title ?y = strip_chars '' _'' ?y"
    by (rule stripped_title_safe) (rule set_sanitize)
  have ne: "strip_chars '' _'' ?y \<noteq> []"
    using sanitize_nonempty sanitize_hd by (rule strip_chars_front(2))
  have "length (strip_chars '' _'' ?y) \<le> 100"
    using length_strip_chars[of "'' _''" ?y] length_sanitize[of x] by linarith
  with ne st show ?thesis by (simp add: sanitize_filename_def[of ?y] Let_def)
qed

lemma sanitize_short_idem:
  assumes "length (stripped_title x) \<le> 100"
  shows "sanitize_filename (sanitize_filename x) = sanitize_filename x"
proof (cases "stripped_title x = []")
  case True
  then have y: "sanitize_filename x = placeholder" by (simp add: sanitize_filename_def)
  have "sanitize_filename (sanitize_filename x) = strip_chars '' _'' (sanitize_filename x)"
    by (rule sanitize_twice)
  also have "\<dots> = strip_chars '' _'' placeholder" by (simp only: y)
  also have "\<dots> = placeholder" by (simp add: strip_chars_def placeholder_def)
  finally show ?thesis by (simp only: y)
next
  case False
  then have y: "sanitize_filename x = stripped_title x"
    using assms by (simp add: sanitize_filename_def Let_def)
  have "last (stripped_title x) \<notin> set '' _''"
    using False unfolding stripped_title_def Let_def by (rule strip_chars_ends(2))
  with sanitize_nonempty[of x] sanitize_hd[of x] have "strip_chars '' _'' (sanitize_filename x) = sanitize_filename x"
    unfolding y by (intro strip_chars_fixed)
  then show ?thesis by (simp only: sanitize_twice)
qed


text \<open>
  Claim C6. For every raw title, the result of \<open>sanitize_filename\<close> consists of letters,
  digits, spaces, hyphens and underscores only (so it holds none of the characters
  \<^verbatim>\<open><>:"/\|?*\<close>), it has at most 100 characters, and where the cleaned and stripped
  title is empty the result is the fixed placeholder \<^verbatim>\<open>youtube_video\<close>.
\<close>

theorem sanitize_filename_invariant:
  "(\<forall>c \<in> set (sanitize_filename title). allowed_char c \<and> c \<notin> set illegal_chars) \<and>
   length (sanitize_filename title) \<le> 100 \<and>
   (stripped_title title = [] \<longrightarrow> sanitize_filename title = ''youtube_video'')"
proof (intro conjI ballI impI)
  fix c assume "c \<in> set (sanitize_filename title)"
  then have "c \<in> set safe_chars" using set_sanitize by auto
  then show "allowed_char c" "c \<notin> set illegal_chars"
    by (simp_all add: safe_allowed safe_not_illegal)
next
  show "length (sanitize_filename title) \<le> 100" by (rule length_sanitize)
next
  assume "stripped_title title = []"
  then show "sanitize_filename title = ''youtube_video''"
    by (simp add: sanitize_filename_def placeholder_def)
qed

theorem sanitize_filename_invariant_witness:
  "stripped_title ''<?>'' = [] \<and> sanitize_filename ''<?>'' = ''youtube_video'' \<and>
   CHR ''y'' \<in> set (sanitize_filename ''<?>'') \<and>
   allowed_char (CHR ''y'') \<and> CHR ''y'' \<notin> set illegal_chars \<and>
   length (sanitize_filename ''<?>'') \<le> 100"
proof -
  have e: "stripped_title ''<?>'' = []"
    by (simp add: stripped_title_def illegal_chars_def replace_char_def safe_chars_def
        ascii_letters_def digits_def strip_chars_def)
  then have s: "sanitize_filename ''<?>'' = ''youtube_video''"
    by (simp add: sanitize_filename_def placeholder_def)
  then have y: "CHR ''y'' \<in> set (sanitize_filename ''<?>'')" by simp
  from e s y show ?thesis using sanitize_filename_invariant [of "''<?>''"] by blast
qed

text \<open>
  Claim C7, as stated, fails: a title whose cleaned form is longer than 100 characters is
  cut after the stripping, and the cut can end in a space or an underscore, which a second
  application strips. Here 99 letters, a space and one more letter are cut to 99 letters
  and the space; the second application returns the 99 letters.
\<close>

theorem sanitize_filename_not_idempotent:
  "sanitize_filename (sanitize_filename (replicate 99 (CHR ''a'') @ '' b''))
     \<noteq> sanitize_filename (replicate 99 (CHR ''a'') @ '' b'')"
  by code_simp

text \<open>
  Claim C7, amended. A second application of \<open>sanitize_filename\<close> only strips the spaces
  and underscores at the ends of the first result; it returns the first result unchanged
  whenever the cleaned and stripped title has at most 100 characters, that is, whenever
  the length limit did not cut it.
\<close>

theorem sanitize_filename_twice:
  "sanitize_filename (sanitize_filename x) = strip_chars '' _'' (sanitize_filename x) \<and>
   (length (stripped_title x) \<le> 100 \<longrightarrow>
      sanitize_filename (sanitize_filename x) = sanitize_filename x)"
  using sanitize_twice sanitize_short_idem by blast

theorem sanitize_filename_twice_witness:
  "length (stripped_title ''My Video'') \<le> 100 \<and>
   sanitize_filename (sanitize_filename ''My Video'') = sanitize_filename ''My Video''"
proof -
  have "length (stripped_title ''My Video'') \<le> length ''My Video''"
    unfolding stripped_title_def Let_def
    by (rule order_trans[OF length_strip_chars]) (simp add: illegal_chars_def replace_char_def)
  then have "length (stripped_title ''My Video'') \<le> 100" by simp
  then show ?thesis using sanitize_filename_twice [of "''My Video''"] by blast
qed

section \<open>Properties of the time utilities\<close>

lemma digits_nth: "digits ! 0 = CHR ''0''" by (simp add: digits_def)

lemma fmt_02d_two_digits:
  assumes "0 \<le> n" "n \<le> 99"
  shows "fmt_02d n = two_digits n"
proof (cases "n < 10")
  case True
  with assms have "nat n < 10" "n div 10 = 0" "n mod 10 = n" by simp_all
  with assms True show ?thesis
    by (simp add: fmt_02d_def two_digits_def decimal.simps[of "nat n"] digits_nth)
next
  case False
  with assms have a: "\<not> nat n < 10" "nat n div 10 < 10" by simp_all
  have b: "nat (n div 10) = nat n div 10" "nat (n mod 10) = nat n mod 10"
    using assms by (simp_all add: nat_div_distrib nat_mod_distrib)
  from False assms a show ?thesis
    by (simp add: fmt_02d_def two_digits_def decimal.simps[of "nat n"] decimal.simps[of "nat n div 10"] b)
qed

subsection \<open>The scan reads exactly the digit groups\<close>

lemma ws_no_digit: "is_ws u c \<Longrightarrow> digit_of u c = None"
  by (auto simp: is_ws_def digit_of_def)

lemma ws_no_mark: "is_ws u c \<Longrightarrow> c \<noteq> 95 \<and> c \<noteq> 43 \<and> c \<noteq> 45"
  by (auto simp: is_ws_def)

lemma digit_no_mark: "digit_of u c = Some d \<Longrightarrow> c \<noteq> 95 \<and> c \<noteq> 43 \<and> c \<noteq> 45"
  by (auto simp: digit_of_def split: if_splits)

lemma digit_no_ws: "digit_of u c = Some d \<Longrightarrow> \<not> is_ws u c"
  using ws_no_digit by fastforce

lemma groups_start:
  "digit_groups u body ds \<Longrightarrow> body \<noteq> [] \<and> ds \<noteq> [] \<and> (\<exists>d. digit_of u (hd body) = Some d)"
  by (induction rule: digit_groups.induct) auto

lemma scan_over_groups:
  "digit_groups u body ds \<Longrightarrow>
   scan_digits u prev acc (body @ rest) = scan_digits u False (acc @ ds) rest"
proof (induction arbitrary: prev acc rule: digit_groups.induct)
  case (last c d)
  then show ?case using digit_no_mark[of u c d] by simp
next
  case (digit c d xs ds)
  have "scan_digits u prev acc ((c # xs) @ rest) = scan_digits u False (acc @ [d]) (xs @ rest)"
    using digit.hyps(1) digit_no_mark[of u c d] by simp
  then show ?case using digit.IH[of False "acc @ [d]"] by simp
next
  case (underscore c d xs ds)
  have "scan_digits u prev acc ((c # 95 # xs) @ rest) =
        scan_digits u True (acc @ [d]) (xs @ rest)"
    using underscore.hyps(1) digit_no_mark[of u c d] by simp
  then show ?case using underscore.IH[of True "acc @ [d]"] by simp
qed

lemma scan_stops:
  assumes "rest = [] \<or> (digit_of u (hd rest) = None \<and> hd rest \<noteq> 95)"
  shows "scan_digits u False acc rest = Some (acc, rest)"
  using assms by (cases rest) auto

lemma scan_groups:
  assumes "digit_groups u body ds" "list_all (is_ws u) trail"
  shows "scan_digits u False [] (body @ trail) = Some (ds, trail)"
proof -
  have "trail = [] \<or> (digit_of u (hd trail) = None \<and> hd trail \<noteq> 95)"
    using assms(2) ws_no_digit ws_no_mark by (cases trail) auto
  then show ?thesis using scan_over_groups[OF assms(1), of False "[]" trail] scan_stops by simp
qed

lemma scan_complete:
  assumes "scan_digits u prev acc s = Some (ds, rest)"
  shows "\<exists>body ds'. s = body @ rest \<and> ds = acc @ ds' \<and>
           (digit_groups u body ds' \<or>
            \<not> prev \<and> (body = [] \<and> ds' = [] \<or> (\<exists>b. body = 95 # b \<and> digit_groups u b ds')))"
  using assms
proof (induction s arbitrary: prev acc)
  case Nil
  then show ?case by (auto split: if_splits)
next
  case (Cons c cs)
  show ?case
  proof (cases "c = 95")
    case True
    with Cons.prems have np: "\<not> prev" and sc: "scan_digits u True acc cs = Some (ds, rest)"
      by (auto split: if_splits)
    from Cons.IH[OF sc] obtain b ds' where b: "cs = b @ rest" "ds = acc @ ds'"
      "digit_groups u b ds'" by auto
    show ?thesis using np b True by (intro exI[of _ "95 # b"] exI[of _ ds']) simp
  next
    case False
    show ?thesis
    proof (cases "digit_of u c")
      case None
      with False Cons.prems show ?thesis
        by (intro exI[of _ "[]"] exI[of _ "[]"]) (auto split: if_splits)
    next
      case (Some d)
      from False Some Cons.prems have sc: "scan_digits u False (acc @ [d]) cs = Some (ds, rest)"
        by simp
      from Cons.IH[OF sc] obtain b ds' where b: "cs = b @ rest" "ds = (acc @ [d]) @ ds'"
        "digit_groups u b ds' \<or> b = [] \<and> ds' = [] \<or>
         (\<exists>b'. b = 95 # b' \<and> digit_groups u b' ds')" by auto
      from b(3) have "digit_groups u (c # b) (d # ds')"
        using digit_groups.last[OF Some] digit_groups.digit[OF Some]
          digit_groups.underscore[OF Some] by auto
      then show ?thesis using b(1,2) by (intro exI[of _ "c # b"] exI[of _ "d # ds'"]) simp
    qed
  qed
qed

lemma scan_start:
  assumes "scan_digits u False [] s = Some (ds, rest)" "ds \<noteq> []" "s = [] \<or> hd s \<noteq> 95"
  shows "\<exists>body. s = body @ rest \<and> digit_groups u body ds"
proof -
  from scan_complete[OF assms(1)] obtain body where b: "s = body @ rest"
    "digit_groups u body ds \<or> body = [] \<and> ds = [] \<or>
     (\<exists>b. body = 95 # b \<and> digit_groups u b ds)" by auto
  from b(2) assms(2,3) b(1) have "digit_groups u body ds" by auto
  with b(1) show ?thesis by blast
qed


subsection \<open>The conversion accepts exactly the integer texts\<close>

lemma py_int_complete:
  assumes "integer_text u s v"
  shows "py_int u s = Some v"
proof -
  from assms obtain lead sign body ds trail where
    s: "s = lead @ sign @ body @ trail"
    and ws: "list_all (is_ws u) lead" "list_all (is_ws u) trail"
    and g: "digit_groups u body ds"
    and lim: "length ds \<le> 640 \<or> max_str_digits u = 0 \<or> length ds \<le> max_str_digits u"
    and sg: "sign = [] \<and> v = int (decimal_value ds) \<or>
             sign = [43] \<and> v = int (decimal_value ds) \<or>
             sign = [45] \<and> v = - int (decimal_value ds)"
    unfolding integer_text_def by blast
  from groups_start[OF g] obtain d where b: "body \<noteq> []" "ds \<noteq> []"
    "digit_of u (hd body) = Some d" by blast
  from b(3) have hb: "hd body \<noteq> 95" "hd body \<noteq> 43" "hd body \<noteq> 45" "\<not> is_ws u (hd body)"
    using digit_no_mark digit_no_ws by blast+
  let ?t = "sign @ body @ trail"
  have t: "?t \<noteq> []" "\<not> is_ws u (hd ?t)"
    using sg b(1) hb(4) ws_no_mark[of u 43] ws_no_mark[of u 45] by auto
  have "dropWhile (is_ws u) ?t = ?t" using t by (cases ?t) auto
  moreover have "dropWhile (is_ws u) (lead @ ?t) = dropWhile (is_ws u) ?t"
    using ws(1) by (simp add: list_all_iff)
  ultimately have s1: "dropWhile (is_ws u) s = ?t" unfolding s by simp
  have neg: "(?t \<noteq> [] \<and> hd ?t = 45) = (sign = [45])"
    using sg b(1) hb by auto
  have s2: "(if ?t \<noteq> [] \<and> (hd ?t = 43 \<or> hd ?t = 45) then tl ?t else ?t) = body @ trail"
    using sg b(1) hb by auto
  have sc: "scan_digits u False [] (body @ trail) = Some (ds, trail)"
    using scan_groups[OF g ws(2)] .
  have tr: "dropWhile (is_ws u) trail = []" using ws(2) by (simp add: list_all_iff)
  have l: "\<not> (640 < length ds \<and> 0 < max_str_digits u \<and> max_str_digits u < length ds)"
    using lim by auto
  have h: "\<not> (body @ trail \<noteq> [] \<and> hd (body @ trail) = 95)" using b(1) hb(1) by simp
  have "py_int u s = Some (if sign = [45] then - int (decimal_value ds) else int (decimal_value ds))"
    unfolding py_int_def Let_def s1 neg s2 using sc tr l h b(2) by simp
  then show ?thesis using sg by auto
qed

lemma py_int_sound:
  assumes "py_int u s = Some v"
  shows "integer_text u s v"
proof -
  define s1 where "s1 = dropWhile (is_ws u) s"
  define negative where "negative = (s1 \<noteq> [] \<and> hd s1 = 45)"
  define signed where "signed = (s1 \<noteq> [] \<and> (hd s1 = 43 \<or> hd s1 = 45))"
  define s2 where "s2 = (if signed then tl s1 else s1)"
  define sign where "sign = (if signed then [hd s1] else [])"
  have eq: "py_int u s =
     (if s2 \<noteq> [] \<and> hd s2 = 95 then None
      else (case scan_digits u False [] s2 of
              None \<Rightarrow> None
            | Some (ds, rest) \<Rightarrow>
                if ds = [] then None
                else if 640 < length ds \<and> 0 < max_str_digits u \<and>
                        max_str_digits u < length ds then None
                else if dropWhile (is_ws u) rest \<noteq> [] then None
                else Some (if negative then - int (decimal_value ds)
                           else int (decimal_value ds))))"
    unfolding py_int_def Let_def s1_def negative_def signed_def s2_def by (rule refl)
  from assms eq have h: "\<not> (s2 \<noteq> [] \<and> hd s2 = 95)" by (auto split: if_splits)
  with assms eq obtain ds rest where sc: "scan_digits u False [] s2 = Some (ds, rest)"
    by (cases "scan_digits u False [] s2") auto
  from assms eq h sc have ne: "ds \<noteq> []"
    and lim: "\<not> (640 < length ds \<and> 0 < max_str_digits u \<and> max_str_digits u < length ds)"
    and tr: "dropWhile (is_ws u) rest = []"
    and v: "v = (if negative then - int (decimal_value ds) else int (decimal_value ds))"
    by (simp_all split: if_splits)
  from h have "s2 = [] \<or> hd s2 \<noteq> 95" by blast
  from scan_start[OF sc ne this] obtain body where
    b: "s2 = body @ rest" and g: "digit_groups u body ds" by blast
  have "s1 = sign @ s2" unfolding sign_def s2_def signed_def by (cases s1) auto
  then have "s = takeWhile (is_ws u) s @ sign @ body @ rest"
    using takeWhile_dropWhile_id[of "is_ws u" s] b unfolding s1_def by metis
  moreover have "list_all (is_ws u) (takeWhile (is_ws u) s)"
    by (auto simp: list_all_iff dest: set_takeWhileD)
  moreover have "list_all (is_ws u) rest" using tr by (simp add: list_all_iff)
  moreover have "length ds \<le> 640 \<or> max_str_digits u = 0 \<or> length ds \<le> max_str_digits u"
    using lim by auto
  moreover have "sign = [] \<and> v = int (decimal_value ds) \<or>
             sign = [43] \<and> v = int (decimal_value ds) \<or>
             sign = [45] \<and> v = - int (decimal_value ds)"
    using v unfolding sign_def signed_def negative_def by auto
  ultimately show ?thesis unfolding integer_text_def using g by blast
qed

lemma py_int_iff: "py_int u s = Some v \<longleftrightarrow> integer_text u s v"
  using py_int_sound py_int_complete by blast

lemma integer_text_nonempty: "integer_text u s v \<Longrightarrow> s \<noteq> []"
  unfolding integer_text_def using groups_start by fastforce

lemma int_or_zero_iff: "int_or_zero u c = Some v \<longleftrightarrow> component u c v"
  using integer_text_nonempty[of u c v]
  by (auto simp: int_or_zero_def component_def py_int_iff)

lemma time_ok:
  assumes "component u h hv" "component u m mv" "component u s sv"
    and "0 \<le> hv" "hv \<le> 23" "0 \<le> mv" "mv \<le> 59" "0 \<le> sv" "sv \<le> 59"
  shows "is_valid_time u h m s"
    and "format_time u h m s =
           Some (two_digits hv @ '':'' @ two_digits mv @ '':'' @ two_digits sv)"
  using assms
  by (simp_all add: int_or_zero_iff[symmetric] is_valid_time_def format_time_def
      fmt_02d_two_digits)

lemma time_bad:
  assumes "(\<nexists>v. component u h v) \<or> (\<nexists>v. component u m v) \<or> (\<nexists>v. component u s v) \<or>
     (\<exists>v. component u h v \<and> (v < 0 \<or> 23 < v)) \<or>
     (\<exists>v. component u m v \<and> (v < 0 \<or> 59 < v)) \<or>
     (\<exists>v. component u s v \<and> (v < 0 \<or> 59 < v))"
  shows "\<not> is_valid_time u h m s"
  using assms
  by (auto simp: int_or_zero_iff[symmetric] is_valid_time_def split: option.splits)

text \<open>
  Claim C8. For every component triple and whatever the interpreter's Unicode tables and
  digit limit are: if each component stands for an integer (it parses as that integer, or
  it is absent and the integer is 0), the hours in 0..23 and the minutes and seconds in
  0..59, then \<open>is_valid_time\<close> accepts and \<open>format_time\<close> returns the zero-padded
  rendering \<^verbatim>\<open>HH:MM:SS\<close> of the three values. If a component stands for no integer (it is
  non-numeric) or for one out of its range, \<open>is_valid_time\<close> rejects.
\<close>

theorem time_validation_and_format:
  "(component u h hv \<and> component u m mv \<and> component u s sv \<and>
    0 \<le> hv \<and> hv \<le> 23 \<and> 0 \<le> mv \<and> mv \<le> 59 \<and> 0 \<le> sv \<and> sv \<le> 59 \<longrightarrow>
      is_valid_time u h m s \<and>
      format_time u h m s = Some (two_digits hv @ '':'' @ two_digits mv @ '':'' @ two_digits sv)) \<and>
   ((\<nexists>v. component u h v) \<or> (\<nexists>v. component u m v) \<or> (\<nexists>v. component u s v) \<or>
    (\<exists>v. component u h v \<and> (v < 0 \<or> 23 < v)) \<or>
    (\<exists>v. component u m v \<and> (v < 0 \<or> 59 < v)) \<or>
    (\<exists>v. component u s v \<and> (v < 0 \<or> 59 < v)) \<longrightarrow>
      \<not> is_valid_time u h m s)"
proof (intro conjI impI)
  assume a: "component u h hv \<and> component u m mv \<and> component u s sv \<and>
    0 \<le> hv \<and> hv \<le> 23 \<and> 0 \<le> mv \<and> mv \<le> 59 \<and> 0 \<le> sv \<and> sv \<le> 59"
  then show "is_valid_time u h m s" by (intro time_ok(1)[of u h hv m mv s sv]) simp_all
  from a show "format_time u h m s =
      Some (two_digits hv @ '':'' @ two_digits mv @ '':'' @ two_digits sv)"
    by (intro time_ok(2)) simp_all
next
  assume "(\<nexists>v. component u h v) \<or> (\<nexists>v. component u m v) \<or> (\<nexists>v. component u s v) \<or>
    (\<exists>v. component u h v \<and> (v < 0 \<or> 23 < v)) \<or>
    (\<exists>v. component u m v \<and> (v < 0 \<or> 59 < v)) \<or>
    (\<exists>v. component u s v \<and> (v < 0 \<or> 59 < v))"
  then show "\<not> is_valid_time u h m s" by (rule time_bad)
qed


lemmas int_eval = int_or_zero_def py_int_def excerpt_tables_def is_ws_def digit_of_def
  decimal_value_def Let_def

lemma int_or_zero_examples:
  "int_or_zero excerpt_tables [0xFF12, 0xFF13] = Some 23"
  "int_or_zero excerpt_tables [] = Some 0"
  "int_or_zero excerpt_tables [53] = Some 5"
  "int_or_zero excerpt_tables [50, 52] = Some 24"
  "int_or_zero excerpt_tables [0x1C, 53] = None"
  by (simp_all add: int_eval)

lemma component_examples:
  "component excerpt_tables [0xFF12, 0xFF13] 23"
  "component excerpt_tables [] 0"
  "component excerpt_tables [53] 5"
  "component excerpt_tables [50, 52] 24"
  "\<nexists>v. component excerpt_tables [0x1C, 53] v"
  using int_or_zero_examples by (simp_all add: int_or_zero_iff[symmetric])

theorem time_validation_and_format_witness:
  "component excerpt_tables [0xFF12, 0xFF13] 23 \<and> component excerpt_tables [] 0 \<and>
   component excerpt_tables [53] 5 \<and>
   is_valid_time excerpt_tables [0xFF12, 0xFF13] [] [53] \<and>
   format_time excerpt_tables [0xFF12, 0xFF13] [] [53] = Some ''23:00:05'' \<and>
   component excerpt_tables [50, 52] 24 \<and>
   \<not> is_valid_time excerpt_tables [50, 52] [] [53] \<and>
   (\<nexists>v. component excerpt_tables [0x1C, 53] v) \<and>
   \<not> is_valid_time excerpt_tables [53] [0x1C, 53] []"
proof -
  have r: "two_digits 23 @ '':'' @ two_digits 0 @ '':'' @ two_digits 5 = ''23:00:05''"
    by (simp add: two_digits_def digits_def)
  have a: "is_valid_time excerpt_tables [0xFF12, 0xFF13] [] [53] \<and>
     format_time excerpt_tables [0xFF12, 0xFF13] [] [53] = Some ''23:00:05''"
    using time_validation_and_format [of excerpt_tables "[0xFF12, 0xFF13]" 23 "[]" 0 "[53]" 5]
      component_examples(1-3) unfolding r by simp
  have "\<exists>v. component excerpt_tables [50, 52] v \<and> (v < 0 \<or> 23 < v)"
    using component_examples(4) by (intro exI[of _ 24]) simp
  then have b: "\<not> is_valid_time excerpt_tables [50, 52] [] [53]"
    using time_validation_and_format [of excerpt_tables "[50, 52]" 0 "[]" 0 "[53]" 0] by blast
  have c: "\<not> is_valid_time excerpt_tables [53] [0x1C, 53] []"
    using time_validation_and_format [of excerpt_tables "[53]" 0 "[0x1C, 53]" 0 "[]" 0]
      component_examples(5) by blast
  from a b c component_examples show ?thesis by blast
qed

subsection \<open>The conversion on further texts\<close>

text \<open>
  With the tables \<open>excerpt_tables\<close>: the Arabic-Indic digit three; a no-break space before
  a digit; a sign, an underscore between digits and white space on both sides; leading
  zeros. Refused: two underscores in a row, an underscore first or last, white space after
  the sign, a sign alone, a decimal point, a hexadecimal prefix.
\<close>

lemma py_int_examples:
  "py_int excerpt_tables [0x663] = Some 3"
  "py_int excerpt_tables [0xA0, 53] = Some 5"
  "py_int excerpt_tables [32, 45, 49, 95, 48, 0xA0] = Some (- 10)"
  "py_int excerpt_tables [48, 48, 55] = Some 7"
  "py_int excerpt_tables [49, 95, 95, 48] = None"
  "py_int excerpt_tables [95, 48] = None"
  "py_int excerpt_tables [49, 95] = None"
  "py_int excerpt_tables [45, 32, 49] = None"
  "py_int excerpt_tables [43] = None"
  "py_int excerpt_tables [49, 46, 53] = None"
  "py_int excerpt_tables [48, 120, 49, 48] = None"
  by (simp_all add: int_eval)

text \<open>
  A text of zeros only: it is refused when it is longer than 640 digits and than the
  limit, and is 0 otherwise. With the limit of 4300 digits, 4301 zeros are refused and
  4300 zeros are 0.
\<close>

lemma scan_zeros:
  "scan_digits u prev acc (replicate (Suc n) 48) = Some (acc @ replicate (Suc n) 0, [])"
proof (induction n arbitrary: prev acc)
  case 0
  show ?case by (simp add: digit_of_def)
next
  case (Suc n)
  have "scan_digits u prev acc (replicate (Suc (Suc n)) 48) =
        scan_digits u False (acc @ [0]) (replicate (Suc n) 48)"
    by (simp add: digit_of_def)
  then show ?case using Suc[of False "acc @ [0]"] by (simp add: replicate_app_Cons_same)
qed

lemma decimal_value_zeros: "decimal_value (replicate n 0) = 0"
  by (induction n) (simp_all add: decimal_value_def)

lemma py_int_zeros:
  "py_int u (replicate (Suc n) 48) =
     (if 640 < Suc n \<and> 0 < max_str_digits u \<and> max_str_digits u < Suc n then None else Some 0)"
proof -
  have a: "dropWhile (is_ws u) (replicate (Suc n) 48) = replicate (Suc n) 48"
    by (simp add: is_ws_def)
  show ?thesis
    unfolding py_int_def Let_def a
    by (simp add: scan_zeros decimal_value_zeros del: replicate_Suc replicate.simps)
qed

lemma digit_limit_examples:
  "py_int excerpt_tables (replicate 4301 48) = None"
  "py_int excerpt_tables (replicate 4300 48) = Some 0"
  using py_int_zeros[of excerpt_tables 4300] py_int_zeros[of excerpt_tables 4299]
  by (simp_all add: excerpt_tables_def del: replicate_Suc replicate.simps)

section \<open>Properties of the URL check\<close>


lemma set_lit: "set (lit p s) = {r. s = p @ r}"
proof -
  have "take (length p) s = p \<longleftrightarrow> s = p @ drop (length p) s"
    by (metis append_eq_conv_conj append_take_drop_id)
  then show ?thesis by (auto simp: lit_def)
qed

lemma set_opt: "set (opt m s) = set (m s) \<union> {s}"
  by (simp add: opt_def)

lemma set_alt: "set (alt m1 m2 s) = set (m1 s) \<union> set (m2 s)"
  by (simp add: alt_def)

lemma set_seq: "set (seq m1 m2 s) = (\<Union>r \<in> set (m1 s). set (m2 r))"
  by (simp add: seq_def)

lemma set_dollar: "set (dollar s) = {r. r = s \<and> (s = [] \<or> s = [line_feed])}"
  by (auto simp: dollar_def)

lemma set_dot_plus: "set (dot_plus s) = {r. \<exists>p. p \<noteq> [] \<and> line_feed \<notin> set p \<and> s = p @ r}"
proof -
  let ?P = "\<lambda>c. c \<noteq> line_feed"
  let ?k = "length (takeWhile ?P s)"
  have set: "set (dot_plus s) = {drop n s |n. 1 \<le> n \<and> n \<le> ?k}"
    by (auto simp: dot_plus_def Let_def)
  have kl: "?k \<le> length s" by (rule length_takeWhile_le)
  show ?thesis
  proof (intro set_eqI iffI)
    fix r assume "r \<in> set (dot_plus s)"
    then obtain n where n: "r = drop n s" "1 \<le> n" "n \<le> ?k" unfolding set by auto
    have "take n s = take n (takeWhile ?P s)"
      using n(3) by (metis append_eq_conv_conj takeWhile_dropWhile_id take_take min.absorb1)
    then have "set (take n s) \<subseteq> set (takeWhile ?P s)" by (simp add: set_take_subset)
    then have "line_feed \<notin> set (take n s)" by (auto dest: set_takeWhileD)
    moreover have "take n s \<noteq> []" using n(2,3) kl by auto
    moreover have "s = take n s @ r" by (simp add: n(1))
    ultimately show "r \<in> {r. \<exists>p. p \<noteq> [] \<and> line_feed \<notin> set p \<and> s = p @ r}" by blast
  next
    fix r assume "r \<in> {r. \<exists>p. p \<noteq> [] \<and> line_feed \<notin> set p \<and> s = p @ r}"
    then obtain p where p: "p \<noteq> []" "line_feed \<notin> set p" "s = p @ r" by auto
    from p(2) have "\<forall>x\<in>set p. x \<noteq> line_feed" by auto
    then have "takeWhile ?P s = p @ takeWhile ?P r" unfolding p(3) by simp
    then have "length p \<le> ?k" by simp
    moreover have "1 \<le> length p" using p(1) by (cases p) auto
    moreover have "r = drop (length p) s" by (simp add: p(3))
    ultimately show "r \<in> set (dot_plus s)" unfolding set by blast
  qed
qed

lemma url_tail:
  "seq (lit ''/'') (seq dot_plus dollar) s \<noteq> [] \<longleftrightarrow>
   (\<exists>path tail. path \<noteq> [] \<and> line_feed \<notin> set path \<and> tail \<in> {[], [line_feed]} \<and>
      s = ''/'' @ path @ tail)"
proof -
  have "seq (lit ''/'') (seq dot_plus dollar) s \<noteq> [] \<longleftrightarrow>
        set (seq (lit ''/'') (seq dot_plus dollar) s) \<noteq> {}" by simp
  also have "\<dots> \<longleftrightarrow> (\<exists>path tail. path \<noteq> [] \<and> line_feed \<notin> set path \<and> tail \<in> {[], [line_feed]} \<and>
      s = ''/'' @ path @ tail)"
    unfolding set_seq set_lit set_dot_plus set_dollar by auto
  finally show ?thesis .
qed

lemma seq_prefixes:
  assumes "set (m1 s) = {r. \<exists>p\<in>A. s = p @ r}"
  shows "seq m1 m2 s \<noteq> [] \<longleftrightarrow> (\<exists>p\<in>A. \<exists>r. s = p @ r \<and> m2 r \<noteq> [])"
proof -
  have "seq m1 m2 s \<noteq> [] \<longleftrightarrow> (\<exists>r \<in> set (m1 s). m2 r \<noteq> [])"
    by (auto simp: seq_def)
  then show ?thesis unfolding assms by blast
qed

lemma url_host:
  "seq (alt (lit ''youtube.com'') (lit ''youtu.be'')) m s \<noteq> [] \<longleftrightarrow>
   (\<exists>host \<in> {''youtube.com'', ''youtu.be''}. \<exists>r. s = host @ r \<and> m r \<noteq> [])"
proof (rule seq_prefixes[where A = "{''youtube.com'', ''youtu.be''}"])
  show "set (alt (lit ''youtube.com'') (lit ''youtu.be'') s) =
        {r. \<exists>p\<in>{''youtube.com'', ''youtu.be''}. s = p @ r}"
    unfolding set_alt set_lit by blast
qed

lemma url_www:
  "seq (opt (lit ''www.'')) m s \<noteq> [] \<longleftrightarrow>
   (\<exists>www \<in> {[], ''www.''}. \<exists>r. s = www @ r \<and> m r \<noteq> [])"
proof (rule seq_prefixes[where A = "{[], ''www.''}"])
  show "set (opt (lit ''www.'') s) = {r. \<exists>p\<in>{[], ''www.''}. s = p @ r}"
    unfolding set_opt set_lit by auto
qed

lemma set_scheme:
  "set (seq (lit ''http'') (seq (opt (lit ''s'')) (lit ''://'')) s) =
   {r. s = ''http://'' @ r \<or> s = ''https://'' @ r}"
  unfolding set_seq set_opt set_lit by auto

lemma url_scheme:
  "seq (opt (seq (lit ''http'') (seq (opt (lit ''s'')) (lit ''://'')))) m s \<noteq> [] \<longleftrightarrow>
   (\<exists>scheme \<in> {[], ''http://'', ''https://''}. \<exists>r. s = scheme @ r \<and> m r \<noteq> [])"
proof (rule seq_prefixes[where A = "{[], ''http://'', ''https://''}"])
  show "set (opt (seq (lit ''http'') (seq (opt (lit ''s'')) (lit ''://''))) s) =
        {r. \<exists>p\<in>{[], ''http://'', ''https://''}. s = p @ r}"
    unfolding set_opt set_scheme by auto
qed

lemma url_accepts:
  "is_valid_url url \<longleftrightarrow>
     (\<exists>scheme \<in> {[], ''http://'', ''https://''}. \<exists>www \<in> {[], ''www.''}.
      \<exists>host \<in> {''youtube.com'', ''youtu.be''}. \<exists>path tail.
        path \<noteq> [] \<and> line_feed \<notin> set path \<and> tail \<in> {[], [line_feed]} \<and>
        url = scheme @ www @ host @ ''/'' @ path @ tail)"
proof -
  define A :: "string set" where "A = {[], ''http://'', ''https://''}"
  define B :: "string set" where "B = {[], ''www.''}"
  define C :: "string set" where "C = {''youtube.com'', ''youtu.be''}"
  define d :: string where "d = ''/''"
  define T :: "string set" where "T = {[], [line_feed]}"
  have "is_valid_url url \<longleftrightarrow>
    (\<exists>a\<in>A. \<exists>r. url = a @ r \<and> (\<exists>b\<in>B. \<exists>r'. r = b @ r' \<and> (\<exists>c\<in>C. \<exists>r''. r' = c @ r'' \<and>
      (\<exists>p t. p \<noteq> [] \<and> line_feed \<notin> set p \<and> t \<in> T \<and> r'' = d @ p @ t))))"
    unfolding is_valid_url_def url_pattern_def url_scheme url_www url_host url_tail
      A_def B_def C_def d_def T_def by (rule refl)
  also have "\<dots> \<longleftrightarrow> (\<exists>a\<in>A. \<exists>b\<in>B. \<exists>c\<in>C. \<exists>p t.
      p \<noteq> [] \<and> line_feed \<notin> set p \<and> t \<in> T \<and> url = a @ b @ c @ d @ p @ t)"
    by blast
  finally show ?thesis unfolding A_def B_def C_def d_def T_def .
qed


lemmas url_eval =
  is_valid_url_def url_pattern_def seq_def opt_def lit_def alt_def dot_plus_def dollar_def
  line_feed_def

text \<open>
  Claim C9, as stated, fails: a text of the stated form is rejected when its path holds
  a line feed that does not end the text, since \<open>.\<close> does not match a line feed. Here the
  host \<^verbatim>\<open>youtu.be\<close> and the slash are followed by the non-empty path made of \<^verbatim>\<open>a\<close>, a
  line feed and \<^verbatim>\<open>b\<close>.
\<close>

theorem is_valid_url_rejects_line_feed_in_path:
  "\<not> is_valid_url (''youtu.be'' @ ''/'' @ [CHR ''a'', CHR 0x0A, CHR ''b''])"
  by (simp add: url_eval)

text \<open>
  Claim C9, amended. \<open>is_valid_url\<close> accepts exactly the texts made of an optional scheme
  (\<^verbatim>\<open>http://\<close> or \<^verbatim>\<open>https://\<close>), an optional \<^verbatim>\<open>www.\<close>, one of the hosts \<^verbatim>\<open>youtube.com\<close>
  and \<^verbatim>\<open>youtu.be\<close>, a slash and a non-empty path without line feeds, after which one final
  line feed may follow. It accepts \<^verbatim>\<open>https://www.youtube.com/watch?v=abc123\<close> and
  \<^verbatim>\<open>youtu.be/abc123\<close> and rejects \<^verbatim>\<open>https://vimeo.com/123\<close>.
\<close>

theorem is_valid_url_accepts_exactly:
  "(is_valid_url url \<longleftrightarrow>
     (\<exists>scheme \<in> {[], ''http://'', ''https://''}. \<exists>www \<in> {[], ''www.''}.
      \<exists>host \<in> {''youtube.com'', ''youtu.be''}. \<exists>path tail.
        path \<noteq> [] \<and> line_feed \<notin> set path \<and> tail \<in> {[], [line_feed]} \<and>
        url = scheme @ www @ host @ ''/'' @ path @ tail)) \<and>
   is_valid_url ''https://www.youtube.com/watch?v=abc123'' \<and>
   is_valid_url ''youtu.be/abc123'' \<and>
   \<not> is_valid_url ''https://vimeo.com/123''"
proof (intro conjI)
  show "is_valid_url url \<longleftrightarrow>
     (\<exists>scheme \<in> {[], ''http://'', ''https://''}. \<exists>www \<in> {[], ''www.''}.
      \<exists>host \<in> {''youtube.com'', ''youtu.be''}. \<exists>path tail.
        path \<noteq> [] \<and> line_feed \<notin> set path \<and> tail \<in> {[], [line_feed]} \<and>
        url = scheme @ www @ host @ ''/'' @ path @ tail)"
    by (rule url_accepts)
  show "is_valid_url ''https://www.youtube.com/watch?v=abc123''" by (simp add: url_eval)
  show "is_valid_url ''youtu.be/abc123''" by (simp add: url_eval)
  show "\<not> is_valid_url ''https://vimeo.com/123''" by (simp add: url_eval)
qed

section \<open>Properties of the pipeline\<close>

subsection \<open>Single steps\<close>

lemma run_command_eq:
  "run_command e cmd (Some set_process) (l, w) =
     (Inr (cmd_result e cmd w), process_after e cmd l w,
      w\<lparr>invoked := invoked w @ [cmd], files := files_after e cmd w\<rparr>)"
  by (cases "external e (length (invoked w)) cmd (files w)")
     (simp_all add: run_command_def run_command_body_def files_after_def cmd_result_def
        process_after_def set_process_def Let_def)

lemma after_statuses [simp]:
  "files_after e cmd (w\<lparr>statuses := x\<rparr>) = files_after e cmd w"
  "cmd_result e cmd (w\<lparr>statuses := x\<rparr>) = cmd_result e cmd w"
  "process_after e cmd l (w\<lparr>statuses := x\<rparr>) = process_after e cmd l w"
  by (simp_all add: files_after_def cmd_result_def process_after_def split: proc_outcome.splits)

lemma after_polls [simp]:
  "files_after e cmd (w\<lparr>polls := y\<rparr>) = files_after e cmd w"
  "cmd_result e cmd (w\<lparr>polls := y\<rparr>) = cmd_result e cmd w"
  "process_after e cmd l (w\<lparr>polls := y\<rparr>) = process_after e cmd l w"
  by (simp_all add: files_after_def cmd_result_def process_after_def split: proc_outcome.splits)

lemmas step_defs = cancel_callback_def status_callback_def terminate_def unlink_def
  cleanup_partial_def Let_def

lemma trim_cancelled:
  assumes "cancel_flag e (polls w)"
  shows "\<exists>w'. trim e fo co s t (p, w) = (Cancelled, w') \<and>
           files w' = files_after e (ffmpeg_cmd fo s t co) w - {fo} \<and>
           last (statuses w') = ''Trimming cancelled.''"
  using assms
  by (cases "cmd_result e (ffmpeg_cmd fo s t co) w")
     (auto simp: trim_def run_command_eq step_defs split: option.splits)

lemma trim_saved:
  assumes "\<not> cancel_flag e (polls w)"
    and "external e (length (invoked w)) (ffmpeg_cmd fo s t co) (files w) = Exited 0 out err fs"
    and "co \<in> fs"
  shows "\<exists>oc w'. trim e fo co s t (p, w) = (oc, w') \<and>
           files w' = fs - {fo} \<and>
           last (statuses w') = ''Clip saved as '' @ co @ ''!'' \<and>
           (fo \<in> fs \<longrightarrow> oc = Clip_saved)"
proof -
  have "cmd_result e (ffmpeg_cmd fo s t co) w = (0, out @ err)"
       "files_after e (ffmpeg_cmd fo s t co) w = fs"
    using assms(2) by (simp_all add: cmd_result_def files_after_def)
  then show ?thesis using assms(1,3)
    by (auto simp: trim_def run_command_eq step_defs)
qed

lemma prepare_facts:
  assumes "prepare e url s t w = ((vt, fo, co, ca), w1)"
  shows "polls w1 = polls w" "invoked w1 = invoked w @ [title_cmd url]"
    "fo = in_dir (download_dir e) (full_name vt)"
    "co = in_dir (download_dir e) (clip_name vt s t)"
    "files w1 = files_after e (title_cmd url) w"
  using assms
  by (auto simp: prepare_def get_video_title_def status_callback_def files_after_def Let_def
      split: proc_outcome.splits prod.splits)

lemma prepare_title:
  assumes "prepare e url s t w = ((vt, fo, co, ca), w1)"
    and "external e (length (invoked w)) (title_cmd url) (files w) = Exited 0 out err fs"
  shows "vt = sanitize_filename (strip out)"
proof -
  have "sanitize_filename (strip out) \<noteq> []"
    by (auto simp: sanitize_filename_def Let_def placeholder_def)
  then show ?thesis using assms
    by (auto simp: prepare_def get_video_title_def status_callback_def Let_def)
qed

lemma retrieve_cancel_first:
  assumes "cancel_flag e (polls w)"
  shows "\<exists>p w'. retrieve e ca fo url w = (Inr Ret_cancelled, p, w') \<and> invoked w' = invoked w \<and>
           files w' = files w \<and> last (statuses w') = ''Download cancelled.''"
  using assms
  by (simp add: retrieve_def player_clients_def cancel_callback_def status_callback_def)

lemma full_not_clip: "in_dir d (full_name vt) \<noteq> in_dir d (clip_name vt s t)"
  by (simp add: in_dir_def full_name_def clip_name_def)


lemma spec_step:
  "spec_attempts e out (cmd # cmds) (files w, invoked w) =
     (if fst (cmd_result e cmd w) = 0 \<and> out \<in> files_after e cmd w
      then (True, files_after e cmd w, invoked w @ [cmd])
      else spec_attempts e out cmds (files_after e cmd w - {out}, invoked w @ [cmd]))"
  by (cases "external e (length (invoked w)) cmd (files w)")
     (simp_all add: cmd_result_def files_after_def)

lemma spec_append:
  "spec_attempts e out (xs @ ys) (fs, st) =
     (case spec_attempts e out xs (fs, st) of
        (ok, fs', st') \<Rightarrow> if ok then (ok, fs', st') else spec_attempts e out ys (fs', st'))"
  by (induction xs arbitrary: fs st) (auto split: proc_outcome.splits)

lemma spec_ok:
  "spec_attempts e out cmds (fs, st) = (True, fs', st') \<Longrightarrow> out \<in> fs'"
  by (induction cmds arbitrary: fs st) (auto split: proc_outcome.splits if_splits)

lemma spec_fail_started:
  "spec_attempts e out cmds (fs, st) = (False, fs', st') \<Longrightarrow> st' = st @ cmds"
proof (induction cmds arbitrary: fs st)
  case Nil
  then show ?case by simp
next
  case (Cons a cmds)
  from Cons.prems obtain fs1 where "spec_attempts e out cmds (fs1, st @ [a]) = (False, fs', st')"
    by (auto split: proc_outcome.splits if_splits)
  then have "st' = (st @ [a]) @ cmds" by (rule Cons.IH)
  then show ?case by simp
qed

lemma spec_fail_absent:
  assumes "spec_attempts e out cmds (fs, st) = (False, fs', st')" "cmds \<noteq> []"
  shows "out \<notin> fs'"
proof -
  obtain xs x where c: "cmds = xs @ [x]" using assms(2) by (cases cmds rule: rev_cases) auto
  obtain ok1 fs1 st1 where r: "spec_attempts e out xs (fs, st) = (ok1, fs1, st1)"
    by (cases "spec_attempts e out xs (fs, st)") auto
  from assms(1) have "\<not> ok1" "spec_attempts e out [x] (fs1, st1) = (False, fs', st')"
    unfolding c spec_append r by (auto split: if_splits)
  then show ?thesis by (auto split: proc_outcome.splits if_splits)
qed

lemma loop_step_ok:
  fixes name ua r ca fo url
  defines "cmd \<equiv> ytdlp_cmd name ua r ca fo url"
  assumes "\<not> cancel_flag e (polls w)" "\<not> cancel_flag e (Suc (polls w))"
    and "fst (cmd_result e cmd w) = 0" "fo \<in> files_after e cmd w"
  shows "\<exists>p' w'. player_client_loop e ca fo url ((name, ua, r) # rest) (p, w) =
             (Inr Broke, p', w') \<and>
           files w' = files_after e cmd w \<and> invoked w' = invoked w @ [cmd]"
  using assms(2-)
  by (cases "cmd_result e cmd w") (simp add: run_command_eq step_defs cmd_def[symmetric])

lemma loop_step_fail:
  fixes name ua r ca fo url
  defines "cmd \<equiv> ytdlp_cmd name ua r ca fo url"
  assumes "\<not> cancel_flag e (polls w)" "\<not> cancel_flag e (Suc (polls w))"
    and "\<not> (fst (cmd_result e cmd w) = 0 \<and> fo \<in> files_after e cmd w)"
  shows "\<exists>p' w'. player_client_loop e ca fo url ((name, ua, r) # rest) (p, w) =
             player_client_loop e ca fo url rest (p', w') \<and>
           files w' = files_after e cmd w - {fo} \<and> invoked w' = invoked w @ [cmd]"
proof -
  let ?w2 = "status_callback (''Trying '' @ name @ '' player client...'')
               (snd (cancel_callback e w))"
  let ?w3 = "?w2\<lparr>invoked := invoked ?w2 @ [cmd], files := files_after e cmd ?w2\<rparr>"
  let ?w5 = "status_callback (cross_mark @ '' '' @ name @ '' client failed: '' @
               snd (cmd_result e cmd ?w2)) (snd (cancel_callback e ?w3))"
  let ?w6 = "cleanup_partial fo ?w5"
  have "player_client_loop e ca fo url ((name, ua, r) # rest) (p, w) =
     player_client_loop e ca fo url rest (process_after e cmd None w, ?w6)"
    using assms(2-)
    by (cases "cmd_result e cmd w")
       (auto simp: run_command_eq step_defs cmd_def[symmetric])
  moreover have "files ?w6 = files_after e cmd w - {fo}" "invoked ?w6 = invoked w @ [cmd]"
    by (auto simp: step_defs)
  ultimately show ?thesis by blast
qed

lemma loop_spec:
  assumes "\<forall>k. \<not> cancel_flag e k"
    and "spec_attempts e fo (map (\<lambda>(name, ua, r). ytdlp_cmd name ua r ca fo url) cs)
           (files w, invoked w) = (ok, fs', st')"
  shows "\<exists>p' w'. player_client_loop e ca fo url cs (p, w) =
            (Inr (if ok then Broke else Exhausted), p', w') \<and>
          files w' = fs' \<and> invoked w' = st'"
  using assms(2)
proof (induction cs arbitrary: p w)
  case Nil
  then show ?case by auto
next
  case (Cons c cs)
  obtain name ua r where c: "c = (name, ua, r)" by (cases c) auto
  let ?cmd = "ytdlp_cmd name ua r ca fo url"
  from assms(1) have nc: "\<not> cancel_flag e (polls w)" "\<not> cancel_flag e (Suc (polls w))"
    by simp_all
  show ?case
  proof (cases "fst (cmd_result e ?cmd w) = 0 \<and> fo \<in> files_after e ?cmd w")
    case True
    with Cons.prems have "ok" "fs' = files_after e ?cmd w" "st' = invoked w @ [?cmd]"
      by (simp_all add: c spec_step del: spec_attempts.simps(2))
    then show ?thesis
      using loop_step_ok[OF nc, of name ua r ca fo url cs p] True unfolding c by simp
  next
    case False
    obtain p1 w1 where step: "player_client_loop e ca fo url ((name, ua, r) # cs) (p, w) =
             player_client_loop e ca fo url cs (p1, w1)"
      and w1: "files w1 = files_after e ?cmd w - {fo}" "invoked w1 = invoked w @ [?cmd]"
      using loop_step_fail[OF nc False, of cs p] by blast
    from False Cons.prems
    have "spec_attempts e fo (map (\<lambda>(name, ua, r). ytdlp_cmd name ua r ca fo url) cs)
           (files w1, invoked w1) = (ok, fs', st')"
      by (auto simp add: c spec_step w1 simp del: spec_attempts.simps(2) split: if_splits)
    from Cons.IH[OF this, of p1] show ?thesis unfolding c step .
  qed
qed

lemma generic_spec:
  assumes "\<not> cancel_flag e (polls w)"
    and "spec_attempts e fo [generic_cmd ca fo url] (files w, invoked w) = (ok, fs', st')"
  shows "\<exists>p' w'. generic_fallback e ca fo url w =
            (Inr (if ok then Ret_ok else Ret_failed), p', w') \<and>
          files w' = fs' \<and> invoked w' = st'"
  using assms
  by (cases "cmd_result e (generic_cmd ca fo url) w")
     (auto simp: spec_step generic_fallback_def run_command_eq step_defs
        simp del: spec_attempts.simps(2) split: if_splits)

lemma retrieve_spec:
  assumes "\<forall>k. \<not> cancel_flag e k"
    and "spec_attempts e fo (strategy_commands ca fo url) (files w, invoked w) = (ok, fs', st')"
  shows "\<exists>p' w'. retrieve e ca fo url w = (Inr (if ok then Ret_ok else Ret_failed), p', w') \<and>
          files w' = fs' \<and> invoked w' = st'"
proof -
  let ?named = "map (\<lambda>(name, ua, r). ytdlp_cmd name ua r ca fo url) player_clients"
  obtain ok1 fs1 st1 where n: "spec_attempts e fo ?named (files w, invoked w) = (ok1, fs1, st1)"
    by (cases "spec_attempts e fo ?named (files w, invoked w)") auto
  from loop_spec[OF assms(1) n, of None] obtain p1 w1 where
    l: "player_client_loop e ca fo url player_clients (None, w) =
          (Inr (if ok1 then Broke else Exhausted), p1, w1)"
    and w1: "files w1 = fs1" "invoked w1 = st1" by blast
  show ?thesis
  proof (cases ok1)
    case True
    with assms(2) n have "ok" "fs' = fs1" "st' = st1"
      by (simp_all add: strategy_commands_def named_commands_def spec_append)
    with True l w1 show ?thesis by (simp add: retrieve_def)
  next
    case False
    with assms(2) n have g: "spec_attempts e fo [generic_cmd ca fo url] (files w1, invoked w1) =
        (ok, fs', st')"
      by (simp add: strategy_commands_def named_commands_def spec_append w1
          del: spec_attempts.simps(2))
    from assms(1) have "\<not> cancel_flag e (polls w1)" by simp
    from generic_spec[OF this g] False l show ?thesis by (simp add: retrieve_def)
  qed
qed

subsection \<open>Evaluating the concrete runs\<close>

lemma scripted_sel [simp]:
  "cancel_flag (scripted a ps) k = (k < length a \<and> a ! k)"
  "external (scripted a ps) k cmd fs =
     (if k < length ps then (ps ! k) fs else Popen_raises (Exception ''no such command''))"
  "download_dir (scripted a ps) = ''/home/user/Downloads/YouTubeClips''"
  "cookies (scripted a ps) = None"
  "now (scripted a ps) = ''20240101_120000''"
  by (simp_all add: scripted_def)

lemma title_my_video: "sanitize_filename (strip ''My Video\<newline>'') = ''My Video''"
  by code_simp

lemma my_names:
  "in_dir ''/home/user/Downloads/YouTubeClips'' (full_name ''My Video'') = my_full"
  "in_dir ''/home/user/Downloads/YouTubeClips'' (clip_name ''My Video'' ''00:00:10'' ''00:01:00'')
     = my_clip"
  by (simp_all add: in_dir_def full_name_def clip_name_def my_full_def my_clip_def
      format_time_for_filename_def replace_char_def)

lemma my_distinct: "my_full \<noteq> my_clip" "my_clip \<noteq> my_full"
  by (simp_all add: my_full_def my_clip_def)

lemma prepare_my_video:
  "invoked w = [] \<Longrightarrow>
   prepare (scripted a (title_ok # ps)) url ''00:00:10'' ''00:01:00'' w =
     ((''My Video'', my_full, my_clip, []),
      w\<lparr>statuses := statuses w @ [''Starting download...'', ''Downloading: My Video''],
        invoked := [title_cmd url]\<rparr>)"
  by (simp add: prepare_def get_video_title_def title_ok_def title_my_video my_names
      status_callback_def Let_def)

lemmas run_eval = paths_def retrieval_def prepare_my_video retrieve_def generic_fallback_def
  trim_def download_and_clip_def player_clients_def run_command_eq step_defs cmd_result_def
  files_after_def process_after_def start_world_def download_ok_def download_partial_def
  download_nothing_def download_no_file_def ffmpeg_ok_def my_distinct insert_Diff_if

lemma download_and_clip_eq:
  assumes "paths e url s t w = (vt, fo, co, ca)"
  shows "download_and_clip e url s t w =
     (case retrieval e url s t w of
        (Inl x, p, w2) \<Rightarrow> (Raised x, w2)
      | (Inr Ret_cancelled, p, w2) \<Rightarrow> (Cancelled, w2)
      | (Inr Ret_failed, p, w2) \<Rightarrow> (Failed, w2)
      | (Inr Ret_ok, p, w2) \<Rightarrow> trim e fo co s t (p, w2))"
  using assms
  by (cases "prepare e url s t w") (auto simp: paths_def retrieval_def download_and_clip_def)

lemma paths_facts:
  assumes "paths e url s t w = (vt, fo, co, ca)"
  shows "fo = in_dir (download_dir e) (full_name vt)"
    and "co = in_dir (download_dir e) (clip_name vt s t)"
    and "external e (length (invoked w)) (title_cmd url) (files w) = Exited 0 out err fs \<Longrightarrow>
         vt = sanitize_filename (strip out)"
proof -
  obtain w1 where p: "prepare e url s t w = ((vt, fo, co, ca), w1)"
    using assms by (cases "prepare e url s t w") (auto simp: paths_def)
  from prepare_facts(3,4)[OF p] show "fo = in_dir (download_dir e) (full_name vt)"
    "co = in_dir (download_dir e) (clip_name vt s t)" by simp_all
  show "vt = sanitize_filename (strip out)"
    if "external e (length (invoked w)) (title_cmd url) (files w) = Exited 0 out err fs"
    using prepare_title[OF p that] .
qed

lemma retrieval_cancel_first:
  assumes "cancel_flag e (polls w)"
  shows "\<exists>p w'. retrieval e url s t w = (Inr Ret_cancelled, p, w') \<and>
           invoked w' = invoked w @ [title_cmd url] \<and>
           files w' = files_after e (title_cmd url) w \<and>
           last (statuses w') = ''Download cancelled.''"
proof -
  obtain vt fo co ca w1 where p: "prepare e url s t w = ((vt, fo, co, ca), w1)"
    by (cases "prepare e url s t w") auto
  from prepare_facts[OF p] assms have c: "cancel_flag e (polls w1)"
    and i: "invoked w1 = invoked w @ [title_cmd url]"
    and f: "files w1 = files_after e (title_cmd url) w" by simp_all
  from retrieve_cancel_first[OF c, of ca fo url] show ?thesis
    by (auto simp: retrieval_def p i f)
qed

lemma no_cancel: "\<forall>k. \<not> cancel_flag (scripted [] ps) k"
  by simp

lemmas spec_eval = strategy_commands_def named_commands_def player_clients_def
  download_ok_def download_partial_def download_nothing_def download_no_file_def
  start_world_def insert_Diff_if

subsection \<open>Running a command\<close>

text \<open>
  Claim C10. \<open>run_command\<close> never raises: its result is always a pair. When starting the
  process or waiting for it raises, the pair is 1 and the text of the exception; otherwise
  it is the return code of the process and its standard output followed by its standard
  error.
\<close>

theorem run_command_never_raises:
  "(\<exists>code text. fst (run_command e cmd process_callback (l, w)) = Inr (code, text)) \<and>
   (\<forall>x. external e (length (invoked w)) cmd (files w) = Popen_raises x \<longrightarrow>
      fst (run_command e cmd process_callback (l, w)) = Inr (1, str x)) \<and>
   (\<forall>x fs. external e (length (invoked w)) cmd (files w) = Communicate_raises x fs \<longrightarrow>
      fst (run_command e cmd process_callback (l, w)) = Inr (1, str x)) \<and>
   (\<forall>returncode out err fs.
      external e (length (invoked w)) cmd (files w) = Exited returncode out err fs \<longrightarrow>
      fst (run_command e cmd process_callback (l, w)) = Inr (returncode, out @ err))"
  by (cases "external e (length (invoked w)) cmd (files w)")
     (simp_all add: run_command_def run_command_body_def Let_def)

theorem run_command_never_raises_witness:
  "external env_popen_fails (length (invoked (start_world {}))) ''ffmpeg'' (files (start_world {}))
     = Popen_raises (Exception ''[Errno 12] Cannot allocate memory'') \<and>
   fst (run_command env_popen_fails ''ffmpeg'' (Some set_process) (None, start_world {})) =
     Inr (1, ''[Errno 12] Cannot allocate memory'') \<and>
   external env_wait_fails (length (invoked (start_world {}))) ''ffmpeg'' (files (start_world {}))
     = Communicate_raises (Exception ''I/O operation on closed file'') {} \<and>
   fst (run_command env_wait_fails ''ffmpeg'' (Some set_process) (None, start_world {})) =
     Inr (1, ''I/O operation on closed file'') \<and>
   external env_exit_3 (length (invoked (start_world {}))) ''ffmpeg'' (files (start_world {}))
     = Exited 3 ''out'' ''err'' {} \<and>
   fst (run_command env_exit_3 ''ffmpeg'' (Some set_process) (None, start_world {})) =
     Inr (3, ''outerr'')"
proof -
  have a: "external env_popen_fails (length (invoked (start_world {}))) ''ffmpeg''
     (files (start_world {})) = Popen_raises (Exception ''[Errno 12] Cannot allocate memory'')"
    by (simp add: env_popen_fails_def start_world_def)
  have b: "external env_wait_fails (length (invoked (start_world {}))) ''ffmpeg''
     (files (start_world {})) = Communicate_raises (Exception ''I/O operation on closed file'') {}"
    by (simp add: env_wait_fails_def start_world_def)
  have c: "external env_exit_3 (length (invoked (start_world {}))) ''ffmpeg''
     (files (start_world {})) = Exited 3 ''out'' ''err'' {}"
    by (simp add: env_exit_3_def start_world_def)
  from run_command_never_raises [of env_popen_fails "''ffmpeg''" "Some set_process" None "start_world {}"]
    run_command_never_raises [of env_wait_fails "''ffmpeg''" "Some set_process" None "start_world {}"]
    run_command_never_raises [of env_exit_3 "''ffmpeg''" "Some set_process" None "start_world {}"]
    a b c show ?thesis by simp
qed

subsection \<open>Cancellation before the first attempt\<close>

text \<open>
  Claim C3, as stated, fails: the title lookup (\<^verbatim>\<open>yt-dlp --get-title\<close>) is an external
  process and it is started before the cancellation callback is asked for the first time.
  In the run below the callback answers true at its first call; the run is cancelled, and
  the title lookup has been started.
\<close>

theorem cancelled_run_starts_title_lookup:
  "polls (start_world {}) = 0 \<and> cancel_flag env_cancel_at_start 0 \<and>
   fst (download_and_clip env_cancel_at_start my_url ''00:00:10'' ''00:01:00''
          (start_world {})) = Cancelled \<and>
   invoked (snd (download_and_clip env_cancel_at_start my_url ''00:00:10'' ''00:01:00''
          (start_world {}))) = [title_cmd my_url] \<and>
   invoked (snd (download_and_clip env_cancel_at_start my_url ''00:00:10'' ''00:01:00''
          (start_world {}))) \<noteq> []"
  by (simp add: env_cancel_at_start_def run_eval)

text \<open>
  Claim C3, amended. When the cancellation callback answers true at its first call, the
  run ends as cancelled with the status \<^verbatim>\<open>Download cancelled.\<close>, and the only external
  process it has started is the title lookup: no download and no transcoder is started.
\<close>

theorem cancelled_before_first_attempt:
  assumes "cancel_flag e (polls w)"
  shows "fst (download_and_clip e url start end' w) = Cancelled \<and>
     last (statuses (snd (download_and_clip e url start end' w))) = ''Download cancelled.'' \<and>
     invoked (snd (download_and_clip e url start end' w)) = invoked w @ [title_cmd url] \<and>
     files (snd (download_and_clip e url start end' w)) = files_after e (title_cmd url) w"
proof -
  obtain vt fo co ca where p: "paths e url start end' w = (vt, fo, co, ca)"
    by (cases "paths e url start end' w") auto
  from retrieval_cancel_first[OF assms, of url start end'] obtain q w'
    where r: "retrieval e url start end' w = (Inr Ret_cancelled, q, w')"
      and w': "invoked w' = invoked w @ [title_cmd url]"
        "files w' = files_after e (title_cmd url) w"
        "last (statuses w') = ''Download cancelled.''"
    by blast
  have "download_and_clip e url start end' w = (Cancelled, w')"
    unfolding download_and_clip_eq[OF p] r by simp
  with w' show ?thesis by simp
qed

theorem cancelled_before_first_attempt_witness:
  "cancel_flag env_cancel_at_start (polls (start_world {})) \<and>
   fst (download_and_clip env_cancel_at_start my_url ''00:00:10'' ''00:01:00''
          (start_world {})) = Cancelled \<and>
   invoked (snd (download_and_clip env_cancel_at_start my_url ''00:00:10'' ''00:01:00''
          (start_world {}))) = [title_cmd my_url]"
proof -
  have h: "cancel_flag env_cancel_at_start (polls (start_world {}))"
    by (simp add: env_cancel_at_start_def start_world_def)
  from cancelled_before_first_attempt [OF h, of my_url "''00:00:10''" "''00:01:00''"] h
  show ?thesis by (simp add: start_world_def)
qed

subsection \<open>The order of the strategies\<close>

text \<open>
  Claim C5. When the cancellation callback never answers true, retrieval does what the
  specification's runner \<open>spec_attempts\<close> does on the three named strategies in their
  declared order followed by the generic fallback: an attempt succeeds iff the downloader
  exits with status 0 and the output file exists, a failed attempt's output file is
  deleted before the next attempt, nothing is started after the first success, and a
  failure means that all four commands were started, the generic one once and last, and
  that no output file is left.
\<close>

theorem retrieval_follows_specification:
  assumes "\<forall>k. \<not> cancel_flag e k"
  shows "case spec_attempts e full_output (strategy_commands cookies_arg full_output url)
                (files w, invoked w) of
     (ok, fs', started') \<Rightarrow>
        fst (retrieve e cookies_arg full_output url w) = Inr (if ok then Ret_ok else Ret_failed) \<and>
        files (snd (snd (retrieve e cookies_arg full_output url w))) = fs' \<and>
        invoked (snd (snd (retrieve e cookies_arg full_output url w))) = started' \<and>
        (ok \<longrightarrow> full_output \<in> fs') \<and>
        (\<not> ok \<longrightarrow> started' = invoked w @ strategy_commands cookies_arg full_output url \<and>
                 full_output \<notin> fs')"
proof -
  obtain ok fs' st' where s: "spec_attempts e full_output
      (strategy_commands cookies_arg full_output url) (files w, invoked w) = (ok, fs', st')"
    by (cases "spec_attempts e full_output (strategy_commands cookies_arg full_output url)
                (files w, invoked w)") auto
  from retrieve_spec[OF assms s] obtain p' w' where
    r: "retrieve e cookies_arg full_output url w = (Inr (if ok then Ret_ok else Ret_failed), p', w')"
    and w': "files w' = fs'" "invoked w' = st'" by blast
  have ne: "strategy_commands cookies_arg full_output url \<noteq> []"
    by (simp add: strategy_commands_def)
  have "ok \<longrightarrow> full_output \<in> fs'"
    using s by (cases ok) (auto dest: spec_ok)
  moreover have "\<not> ok \<longrightarrow> st' = invoked w @ strategy_commands cookies_arg full_output url"
    using s by (cases ok) (auto dest: spec_fail_started)
  moreover have "\<not> ok \<longrightarrow> full_output \<notin> fs'"
    using s ne by (cases ok) (auto dest: spec_fail_absent)
  ultimately show ?thesis unfolding s using r w' by simp
qed

theorem retrieval_follows_specification_witness:
  "(\<forall>k. \<not> cancel_flag env_second_client k) \<and>
   fst (retrieve env_second_client [] my_full my_url (start_world {})) = Inr Ret_ok \<and>
   invoked (snd (snd (retrieve env_second_client [] my_full my_url (start_world {})))) =
     take 2 (strategy_commands [] my_full my_url) \<and>
   files (snd (snd (retrieve env_second_client [] my_full my_url (start_world {})))) =
     {my_full} \<and>
   (\<forall>k. \<not> cancel_flag env_all_fail k) \<and>
   fst (retrieve env_all_fail [] my_full my_url (start_world {})) = Inr Ret_failed \<and>
   invoked (snd (snd (retrieve env_all_fail [] my_full my_url (start_world {})))) =
     strategy_commands [] my_full my_url \<and>
   files (snd (snd (retrieve env_all_fail [] my_full my_url (start_world {})))) = {}"
proof -
  have a: "\<forall>k. \<not> cancel_flag env_second_client k" unfolding env_second_client_def by (rule no_cancel)
  have b: "\<forall>k. \<not> cancel_flag env_all_fail k" unfolding env_all_fail_def by (rule no_cancel)
  have sa: "spec_attempts env_second_client my_full (strategy_commands [] my_full my_url)
      (files (start_world {}), invoked (start_world {})) =
      (True, {my_full}, take 2 (strategy_commands [] my_full my_url))"
    by (simp add: env_second_client_def spec_eval)
  have sb: "spec_attempts env_all_fail my_full (strategy_commands [] my_full my_url)
      (files (start_world {}), invoked (start_world {})) =
      (False, {}, strategy_commands [] my_full my_url)"
    by (simp add: env_all_fail_def spec_eval)
  from retrieval_follows_specification [OF a, where full_output = my_full
      and cookies_arg = "[]" and url = my_url and w = "start_world {}"]
    retrieval_follows_specification [OF b, where full_output = my_full
      and cookies_arg = "[]" and url = my_url and w = "start_world {}"]
    a b show ?thesis unfolding sa sb by simp
qed

subsection \<open>The intermediate file\<close>

text \<open>
  Claim C1 says that the intermediate full download is deleted on every exit path,
  cancellation during or right after a download attempt included. The code returns from
  that path without deleting it, unlike the cancellation path of the trim step and the
  failure path of each attempt. In the run below no file exists at the start, the flag is
  set while the first download runs, and the download completes: the run ends as
  cancelled and the intermediate file \<open>my_full\<close> is still there.
\<close>

theorem download_cancel_leaves_full_download:
  "paths env_cancel_after_download my_url ''00:00:10'' ''00:01:00'' (start_world {}) =
     (''My Video'', my_full, my_clip, []) \<and>
   my_full \<notin> files (start_world {}) \<and>
   fst (download_and_clip env_cancel_after_download my_url ''00:00:10'' ''00:01:00''
          (start_world {})) = Cancelled \<and>
   last (statuses (snd (download_and_clip env_cancel_after_download my_url ''00:00:10''
          ''00:01:00'' (start_world {})))) = ''Download cancelled.'' \<and>
   my_full \<in> files (snd (download_and_clip env_cancel_after_download my_url ''00:00:10''
          ''00:01:00'' (start_world {})))"
  by (simp add: env_cancel_after_download_def run_eval)

subsection \<open>Cancellation during the trim step\<close>

text \<open>
  Claim C2, as stated, fails: the code never deletes the clip file, and it asks the
  cancellation callback only after the transcoder has ended. In the run below the flag is
  set while the transcoder runs and the transcoder completes: the run ends as cancelled
  and the clip file \<open>my_clip\<close> exists.
\<close>

theorem trim_cancel_leaves_clip:
  "paths env_cancel_in_trim my_url ''00:00:10'' ''00:01:00'' (start_world {}) =
     (''My Video'', my_full, my_clip, []) \<and>
   fst (retrieval env_cancel_in_trim my_url ''00:00:10'' ''00:01:00'' (start_world {})) =
     Inr Ret_ok \<and>
   polls (snd (snd (retrieval env_cancel_in_trim my_url ''00:00:10'' ''00:01:00''
     (start_world {})))) = 2 \<and>
   cancel_flag env_cancel_in_trim 2 \<and>
   fst (download_and_clip env_cancel_in_trim my_url ''00:00:10'' ''00:01:00''
          (start_world {})) = Cancelled \<and>
   my_clip \<in> files (snd (download_and_clip env_cancel_in_trim my_url ''00:00:10''
          ''00:01:00'' (start_world {})))"
  by (simp add: env_cancel_in_trim_def run_eval)

text \<open>
  Claim C2, amended. When retrieval has succeeded and the cancellation callback answers
  true at the call that follows the transcoder, the run ends as cancelled with the status
  \<^verbatim>\<open>Trimming cancelled.\<close> and the intermediate file is deleted; the other files are left
  as the transcoder left them (a clip file it wrote is not removed).
\<close>

theorem trim_cancellation:
  assumes "paths e url start end' w = (video_title, full_output, clipped_output, cookies_arg)"
    and "fst (retrieval e url start end' w) = Inr Ret_ok"
    and "cancel_flag e (polls (snd (snd (retrieval e url start end' w))))"
  shows "fst (download_and_clip e url start end' w) = Cancelled \<and>
     last (statuses (snd (download_and_clip e url start end' w))) = ''Trimming cancelled.'' \<and>
     full_output \<notin> files (snd (download_and_clip e url start end' w)) \<and>
     files (snd (download_and_clip e url start end' w)) =
       files_after e (ffmpeg_cmd full_output start end' clipped_output)
         (snd (snd (retrieval e url start end' w))) - {full_output}"
proof -
  obtain p w2 where r: "retrieval e url start end' w = (Inr Ret_ok, p, w2)"
    using assms(2) by (cases "retrieval e url start end' w") auto
  with assms(3) have "cancel_flag e (polls w2)" by simp
  from trim_cancelled[OF this, of full_output clipped_output start end' p]
  obtain w' where "trim e full_output clipped_output start end' (p, w2) = (Cancelled, w')"
    "files w' = files_after e (ffmpeg_cmd full_output start end' clipped_output) w2 - {full_output}"
    "last (statuses w') = ''Trimming cancelled.''" by blast
  then show ?thesis by (simp add: download_and_clip_eq[OF assms(1)] r)
qed

theorem trim_cancellation_witness:
  "paths env_cancel_in_trim my_url ''00:00:10'' ''00:01:00'' (start_world {}) =
     (''My Video'', my_full, my_clip, []) \<and>
   fst (retrieval env_cancel_in_trim my_url ''00:00:10'' ''00:01:00'' (start_world {})) =
     Inr Ret_ok \<and>
   cancel_flag env_cancel_in_trim (polls (snd (snd (retrieval env_cancel_in_trim my_url
     ''00:00:10'' ''00:01:00'' (start_world {}))))) \<and>
   fst (download_and_clip env_cancel_in_trim my_url ''00:00:10'' ''00:01:00''
          (start_world {})) = Cancelled \<and>
   last (statuses (snd (download_and_clip env_cancel_in_trim my_url ''00:00:10'' ''00:01:00''
          (start_world {})))) = ''Trimming cancelled.'' \<and>
   my_full \<notin> files (snd (download_and_clip env_cancel_in_trim my_url ''00:00:10''
          ''00:01:00'' (start_world {})))"
proof -
  have h1: "paths env_cancel_in_trim my_url ''00:00:10'' ''00:01:00'' (start_world {}) =
     (''My Video'', my_full, my_clip, [])"
    by (simp add: env_cancel_in_trim_def run_eval)
  have h2: "fst (retrieval env_cancel_in_trim my_url ''00:00:10'' ''00:01:00'' (start_world {})) =
     Inr Ret_ok"
    by (simp add: env_cancel_in_trim_def run_eval)
  have h3: "cancel_flag env_cancel_in_trim (polls (snd (snd (retrieval env_cancel_in_trim my_url
     ''00:00:10'' ''00:01:00'' (start_world {})))))"
    by (simp add: env_cancel_in_trim_def run_eval)
  from trim_cancellation [OF h1 h2 h3] h1 h2 h3 show ?thesis by blast
qed

subsection \<open>A successful run\<close>

text \<open>
  Claim C4, as stated, fails in its example: \<open>sanitize_filename\<close> keeps the space of
  \<^verbatim>\<open>My Video\<close> (the space is a safe character), so the clip of the successful run below
  is \<^verbatim>\<open>My Video_clip_00-00-10_to_00-01-00.mp4\<close>, not
  \<^verbatim>\<open>My_Video_clip_00-00-10_to_00-01-00.mp4\<close>.
\<close>

theorem clip_name_keeps_space:
  "paths env_success my_url ''00:00:10'' ''00:01:00'' (start_world {}) =
     (''My Video'', my_full, my_clip, []) \<and>
   fst (download_and_clip env_success my_url ''00:00:10'' ''00:01:00'' (start_world {})) =
     Clip_saved \<and>
   files (snd (download_and_clip env_success my_url ''00:00:10'' ''00:01:00''
     (start_world {}))) = {''/home/user/Downloads/YouTubeClips/My Video_clip_00-00-10_to_00-01-00.mp4''} \<and>
   clip_name (sanitize_filename ''My Video'') ''00:00:10'' ''00:01:00'' \<noteq>
     ''My_Video_clip_00-00-10_to_00-01-00.mp4''"
proof -
  have "sanitize_filename ''My Video'' = ''My Video''" by code_simp
  then have "clip_name (sanitize_filename ''My Video'') ''00:00:10'' ''00:01:00'' \<noteq>
     ''My_Video_clip_00-00-10_to_00-01-00.mp4''"
    by (simp add: clip_name_def)
  moreover have "paths env_success my_url ''00:00:10'' ''00:01:00'' (start_world {}) =
     (''My Video'', my_full, my_clip, []) \<and>
   fst (download_and_clip env_success my_url ''00:00:10'' ''00:01:00'' (start_world {})) =
     Clip_saved \<and>
   files (snd (download_and_clip env_success my_url ''00:00:10'' ''00:01:00''
     (start_world {}))) = {my_clip}"
    by (simp add: env_success_def run_eval)
  ultimately show ?thesis by (simp add: my_clip_def)
qed

text \<open>
  Claim C4, amended. When retrieval has succeeded, the cancellation callback answers false
  after the transcoder, and the transcoder exits with status 0 leaving the clip file, then
  after the run the intermediate file does not exist, the clip file exists, and the files
  are those the transcoder left minus the intermediate file (the run creates no file of
  its own); the run reports \<^verbatim>\<open>Clip saved as\<close> with the clip path and, the intermediate
  file being still there after the transcoder, ends as saved. The clip is named by the
  video title (the sanitized title whenever the title lookup exits with status 0),
  \<^verbatim>\<open>_clip_\<close>, and the start and end bounds with hyphens for colons; the title
  \<^verbatim>\<open>My Video\<close> with the bounds 00:00:10 and 00:01:00 gives
  \<^verbatim>\<open>My Video_clip_00-00-10_to_00-01-00.mp4\<close>.
\<close>

theorem successful_run:
  assumes "paths e url start end' w = (video_title, full_output, clipped_output, cookies_arg)"
    and "fst (retrieval e url start end' w) = Inr Ret_ok"
    and "\<not> cancel_flag e (polls (snd (snd (retrieval e url start end' w))))"
    and "external e (length (invoked (snd (snd (retrieval e url start end' w)))))
           (ffmpeg_cmd full_output start end' clipped_output)
           (files (snd (snd (retrieval e url start end' w)))) = Exited 0 out err fs"
    and "clipped_output \<in> fs"
  shows "full_output \<notin> files (snd (download_and_clip e url start end' w)) \<and>
     clipped_output \<in> files (snd (download_and_clip e url start end' w)) \<and>
     files (snd (download_and_clip e url start end' w)) = fs - {full_output} \<and>
     last (statuses (snd (download_and_clip e url start end' w))) =
       ''Clip saved as '' @ clipped_output @ ''!'' \<and>
     (full_output \<in> fs \<longrightarrow> fst (download_and_clip e url start end' w) = Clip_saved) \<and>
     clipped_output = in_dir (download_dir e)
       (video_title @ ''_clip_'' @ format_time_for_filename start @ ''_to_'' @
        format_time_for_filename end' @ ''.mp4'') \<and>
     (\<forall>title err' fs'.
        external e (length (invoked w)) (title_cmd url) (files w) = Exited 0 title err' fs' \<longrightarrow>
        video_title = sanitize_filename (strip title)) \<and>
     clip_name (sanitize_filename ''My Video'') ''00:00:10'' ''00:01:00'' =
       ''My Video_clip_00-00-10_to_00-01-00.mp4''"
proof -
  obtain p w2 where r: "retrieval e url start end' w = (Inr Ret_ok, p, w2)"
    using assms(2) by (cases "retrieval e url start end' w") auto
  from assms(3,4) r have nc: "\<not> cancel_flag e (polls w2)"
    and ex: "external e (length (invoked w2)) (ffmpeg_cmd full_output start end' clipped_output)
           (files w2) = Exited 0 out err fs" by simp_all
  from trim_saved[OF nc ex assms(5), of p] obtain oc w'
    where t: "trim e full_output clipped_output start end' (p, w2) = (oc, w')"
      and w': "files w' = fs - {full_output}"
        "last (statuses w') = ''Clip saved as '' @ clipped_output @ ''!''"
        "full_output \<in> fs \<longrightarrow> oc = Clip_saved" by blast
  have d: "download_and_clip e url start end' w = (oc, w')"
    unfolding download_and_clip_eq[OF assms(1)] r using t by simp
  have fo: "full_output = in_dir (download_dir e) (full_name video_title)"
    and co: "clipped_output = in_dir (download_dir e) (clip_name video_title start end')"
    using paths_facts(1,2)[OF assms(1)] by simp_all
  have ne: "full_output \<noteq> clipped_output" unfolding fo co by (rule full_not_clip)
  have "sanitize_filename ''My Video'' = ''My Video''" by code_simp
  then have my: "clip_name (sanitize_filename ''My Video'') ''00:00:10'' ''00:01:00'' =
       ''My Video_clip_00-00-10_to_00-01-00.mp4''"
    by (simp add: clip_name_def format_time_for_filename_def replace_char_def)
  have ti: "\<forall>title err' fs'.
        external e (length (invoked w)) (title_cmd url) (files w) = Exited 0 title err' fs' \<longrightarrow>
        video_title = sanitize_filename (strip title)"
    using paths_facts(3)[OF assms(1)] by blast
  have "clipped_output \<in> fs - {full_output}" using assms(5) ne by simp
  with d w' co my ti show ?thesis by (simp add: clip_name_def)
qed

theorem successful_run_witness:
  "paths env_success my_url ''00:00:10'' ''00:01:00'' (start_world {}) =
     (''My Video'', my_full, my_clip, []) \<and>
   fst (retrieval env_success my_url ''00:00:10'' ''00:01:00'' (start_world {})) = Inr Ret_ok \<and>
   \<not> cancel_flag env_success (polls (snd (snd (retrieval env_success my_url ''00:00:10''
        ''00:01:00'' (start_world {}))))) \<and>
   external env_success
     (length (invoked (snd (snd (retrieval env_success my_url ''00:00:10'' ''00:01:00''
        (start_world {}))))))
     (ffmpeg_cmd my_full ''00:00:10'' ''00:01:00'' my_clip)
     (files (snd (snd (retrieval env_success my_url ''00:00:10'' ''00:01:00''
        (start_world {}))))) = Exited 0 [] ''video:1kB audio:1kB'' {my_clip, my_full} \<and>
   my_clip \<in> {my_clip, my_full} \<and> my_full \<in> {my_clip, my_full} \<and>
   external env_success (length (invoked (start_world {}))) (title_cmd my_url)
     (files (start_world {})) = Exited 0 ''My Video\<newline>'' [] {} \<and>
   sanitize_filename (strip ''My Video\<newline>'') = ''My Video'' \<and>
   fst (download_and_clip env_success my_url ''00:00:10'' ''00:01:00'' (start_world {})) =
     Clip_saved \<and>
   files (snd (download_and_clip env_success my_url ''00:00:10'' ''00:01:00''
     (start_world {}))) = {my_clip} \<and>
   my_clip = ''/home/user/Downloads/YouTubeClips/My Video_clip_00-00-10_to_00-01-00.mp4''"
proof -
  let ?r = "retrieval env_success my_url ''00:00:10'' ''00:01:00'' (start_world {})"
  have h1: "paths env_success my_url ''00:00:10'' ''00:01:00'' (start_world {}) =
     (''My Video'', my_full, my_clip, [])"
    by (simp add: env_success_def run_eval)
  have w2: "fst ?r = Inr Ret_ok \<and> polls (snd (snd ?r)) = 2 \<and>
      length (invoked (snd (snd ?r))) = 2 \<and> files (snd (snd ?r)) = {my_full}"
    by (simp add: env_success_def run_eval)
  then have h2: "fst ?r = Inr Ret_ok" and pl: "polls (snd (snd ?r)) = 2"
    and le: "length (invoked (snd (snd ?r))) = 2" and fi: "files (snd (snd ?r)) = {my_full}"
    by simp_all
  have h3: "\<not> cancel_flag env_success (polls (snd (snd ?r)))"
    unfolding pl by (simp add: env_success_def)
  have h4: "external env_success (length (invoked (snd (snd ?r))))
     (ffmpeg_cmd my_full ''00:00:10'' ''00:01:00'' my_clip) (files (snd (snd ?r))) =
     Exited 0 [] ''video:1kB audio:1kB'' {my_clip, my_full}"
    unfolding le fi by (simp add: env_success_def ffmpeg_ok_def)
  have h5: "my_clip \<in> {my_clip, my_full}" "my_full \<in> {my_clip, my_full}" by simp_all
  have h6: "external env_success (length (invoked (start_world {}))) (title_cmd my_url)
     (files (start_world {})) = Exited 0 ''My Video\<newline>'' [] {}"
    by (simp add: env_success_def start_world_def title_ok_def)
  have s: "{my_clip, my_full} - {my_full} = {my_clip}" using my_distinct by auto
  from successful_run [OF h1 h2 h3 h4 h5(1)] h1 h2 h3 h4 h5 h6 title_my_video s
  show ?thesis by (simp add: my_clip_def)
qed

end
